theory Spec2Isabelle
  imports Complex_Main "HOL-Library.Sublist"
begin

section \<open>The BB3 screenshot tool (take\_screenshot\_bb3.py)\<close>

subsection \<open>Python's byte strings\<close>

text \<open>
  A Python \<open>bytes\<close> object is a list of 8-bit characters. Slicing never raises: both
  bounds are clipped to the length, a negative bound counts from the end. Indexing raises
  IndexError out of range. \<open>int\<close> applied to \<open>bytes\<close> reads an optional run of ASCII
  white space, an optional sign, a run of decimal digits in which single underscores may
  separate digits, and optional trailing white space; anything else is a ValueError.
\<close>

type_synonym bytes = "char list"

definition py_slice :: "'a list \<Rightarrow> int \<Rightarrow> int \<Rightarrow> 'a list" where
  "py_slice xs i j =
     (let n = int (length xs);
          lo = (if i < 0 then max 0 (i + n) else min i n);
          hi = (if j < 0 then max 0 (j + n) else min j n)
      in take (nat (hi - lo)) (drop (nat lo) xs))"

definition is_space :: "char \<Rightarrow> bool" where
  "is_space c \<longleftrightarrow> c = CHR '' '' \<or> (9 \<le> (of_char c :: nat) \<and> (of_char c :: nat) \<le> 13)"

definition is_digit :: "char \<Rightarrow> bool" where
  "is_digit c \<longleftrightarrow> 48 \<le> (of_char c :: nat) \<and> (of_char c :: nat) \<le> 57"

definition digit_value :: "char \<Rightarrow> int" where
  "digit_value c = int (of_char c) - 48"

definition is_underscore :: "char \<Rightarrow> bool" where
  "is_underscore c \<longleftrightarrow> c = CHR ''_''"

text \<open>The digits of a literal: not empty, no underscore first or last, no two in a row.\<close>

fun digits_ok :: "bool \<Rightarrow> char list \<Rightarrow> bool" where
  "digits_ok after_digit [] = after_digit"
| "digits_ok after_digit (c # cs) =
     (if is_digit c then digits_ok True cs
      else if is_underscore c then after_digit \<and> digits_ok False cs
      else False)"

fun decimal :: "int \<Rightarrow> char list \<Rightarrow> int" where
  "decimal acc [] = acc"
| "decimal acc (c # cs) =
     (if is_digit c then decimal (10 * acc + digit_value c) cs else decimal acc cs)"

definition py_int :: "bytes \<Rightarrow> int option" where
  "py_int bs =
     (let s1 = dropWhile is_space bs;
          negative = (s1 \<noteq> [] \<and> hd s1 = CHR ''-'');
          signed = (s1 \<noteq> [] \<and> (hd s1 = CHR ''+'' \<or> hd s1 = CHR ''-''));
          s2 = (if signed then tl s1 else s1);
          ds = takeWhile (\<lambda>c. is_digit c \<or> is_underscore c) s2;
          rest = dropWhile (\<lambda>c. is_digit c \<or> is_underscore c) s2
      in if digits_ok False ds \<and> list_all is_space rest
         then Some ((if negative then - 1 else 1) * decimal 0 ds)
         else None)"

subsection \<open>Reading the response\<close>

text \<open>
  The socket is the environment: the chunks that the successive \<open>recv(4096)\<close> calls
  return, and what happens when they are used up (the peer has closed the connection, so
  \<open>recv\<close> returns the empty chunk, or nothing arrives and the 10 second timeout raises).
  The loop of lines 37 to 45 stops at an empty chunk or as soon as the data read so far
  ends with a newline byte.
\<close>

datatype sock_end = Closed | TimedOut

datatype bb3_error = FormatError | IndexError | ValueError | SocketError | FileError

definition endswith_newline :: "bytes \<Rightarrow> bool" where
  "endswith_newline data \<longleftrightarrow> data \<noteq> [] \<and> last data = CHR 0x0A"

fun recv_loop :: "bytes list \<Rightarrow> sock_end \<Rightarrow> bytes \<Rightarrow> bb3_error + bytes" where
  "recv_loop [] e data = (case e of Closed \<Rightarrow> Inr data | TimedOut \<Rightarrow> Inl SocketError)"
| "recv_loop (chunk # rest) e data =
     (if chunk = [] then Inr data
      else if endswith_newline (data @ chunk) then Inr (data @ chunk)
      else recv_loop rest e (data @ chunk))"

subsection \<open>Decoding the definite length block\<close>

text \<open>
  Lines 49 to 60 of \<open>take_screenshot\<close>: the marker test returns False after printing the
  format error; the index, the two \<open>int\<close> conversions raise, and the exception is caught
  by the handler of line 70. The payload is a slice, so it is never an error for it to be
  shorter than the declared length. Opening the output file may fail (\<open>open_ok\<close>); an
  error of \<open>sock.close\<close> or in the middle of the write is not modelled.
\<close>

definition startswith_hash :: "bytes \<Rightarrow> bool" where
  "startswith_hash data \<longleftrightarrow> data \<noteq> [] \<and> hd data = CHR ''#''"

definition parse_block :: "bytes \<Rightarrow> bb3_error + bytes" where
  "parse_block data =
     (if \<not> startswith_hash data then Inl FormatError
      else if length data < 2 then Inl IndexError
      else if \<not> is_digit (data ! 1) then Inl ValueError
      else
        (let len_of_len = digit_value (data ! 1) in
         case py_int (py_slice data 2 (2 + len_of_len)) of
           None \<Rightarrow> Inl ValueError
         | Some data_len \<Rightarrow>
             Inr (py_slice data (2 + len_of_len) (2 + len_of_len + data_len))))"

subsection \<open>The whole operation\<close>

record bb3_env =
  timestamp :: string
  connect_ok :: bool
  sendall_ok :: bool
  recv_chunks :: "bytes list"
  recv_end :: sock_end
  open_ok :: bool

record shot =
  returned :: bool
  file_written :: "(string \<times> bytes) option"
  printed :: "string list"

definition error_text :: "bb3_error \<Rightarrow> string" where
  "error_text e =
     (case e of
        FormatError \<Rightarrow> ''ERROR: Invalid response format''
      | IndexError \<Rightarrow> ''ERROR: index out of range''
      | ValueError \<Rightarrow> ''ERROR: invalid literal for int() with base 10''
      | SocketError \<Rightarrow> ''ERROR: socket''
      | FileError \<Rightarrow> ''ERROR: file'')"

definition failed_shot :: "string list \<Rightarrow> bb3_error \<Rightarrow> shot" where
  "failed_shot out e =
     \<lparr>returned = False, file_written = None, printed = out @ [error_text e]\<rparr>"

definition take_screenshot :: "string option \<Rightarrow> bb3_env \<Rightarrow> shot" where
  "take_screenshot filename_arg env =
     (let filename =
            (case filename_arg of
               None \<Rightarrow> ''bb3_screenshot_'' @ timestamp env @ ''.jpg''
             | Some f \<Rightarrow> f);
          out0 = [''Connecting to BB3'']
      in if \<not> connect_ok env then failed_shot out0 SocketError
         else
           (let out1 = out0 @ [''Connected!'', ''Requesting screenshot...'']
            in if \<not> sendall_ok env then failed_shot out1 SocketError
               else
                 (let out2 = out1 @ [''Reading image data...'']
                  in case recv_loop (recv_chunks env) (recv_end env) [] of
                       Inl e \<Rightarrow> failed_shot out2 e
                     | Inr data \<Rightarrow>
                         (case parse_block data of
                            Inl e \<Rightarrow> failed_shot out2 e
                          | Inr img_data \<Rightarrow>
                              if \<not> open_ok env then failed_shot out2 FileError
                              else
                                \<lparr>returned = True,
                                 file_written = Some (filename, img_data),
                                 printed = out2 @ [''Screenshot saved'', ''Image size'']\<rparr>))))"

text \<open>
  A device that declares ten payload bytes and sends them in two segments, \<open>#210abc\n\<close>
  and \<open>defghi\n\<close>: the fourth payload byte is a newline, and the first segment ends
  with it.
\<close>

definition short_read_env :: bb3_env where
  "short_read_env =
     \<lparr>timestamp = ''20250101_000000'', connect_ok = True, sendall_ok = True,
      recv_chunks = [''#210abc'' @ [CHR 0x0A], ''defghi'' @ [CHR 0x0A]],
      recv_end = TimedOut, open_ok = True\<rparr>"

section \<open>The voltage follower (DCP405\_voltage\_follower.py)\<close>

subsection \<open>The instrument and the runtime\<close>

text \<open>
  The script talks to the chassis through \<open>scpi\<close>, \<open>getU\<close>, \<open>getI\<close> and \<open>setU\<close> of
  the \<open>eez\<close> module and reads the millisecond clock of \<open>utime\<close>. Commands are kept
  structured instead of as text; voltages and currents are real numbers (the rounding of
  the float arithmetic is not modelled). A \<open>FLOAT3\<close> value is one the script formats with
  three decimals. Every call is recorded in the trace, as \<open>Call\<close> when it returned and as
  \<open>Failed\<close> when it raised; \<open>Print\<close> records a console line by its fixed text.
\<close>

datatype py_val = PNone | PStr string | PNum real

datatype unit_name = VOLT | AMPER

datatype dial_value = STRING string | FLOAT unit_name real | FLOAT3 unit_name real

datatype scpi_cmd =
    InstNsel nat
  | DialData string dial_value
  | Curr real
  | Outp bool
  | DispInputQ string unit_name real real real
  | DialActionQ int
  | DialClose

datatype call = Scpi scpi_cmd | GetU nat | GetI nat | SetU nat real | TicksMs

datatype event = Call call | Failed call | Print string

datatype 'a reply = Ret 'a | Raise

text \<open>
  The instrument answers a call knowing everything that happened before it. The period of
  the tick counter and the conversion of a text to a float belong to the runtime and are
  parameters.
\<close>

record instrument =
  scpi_reply :: "event list \<Rightarrow> scpi_cmd \<Rightarrow> py_val reply"
  getU_reply :: "event list \<Rightarrow> nat \<Rightarrow> real reply"
  getI_reply :: "event list \<Rightarrow> nat \<Rightarrow> real reply"
  setU_reply :: "event list \<Rightarrow> nat \<Rightarrow> real \<Rightarrow> unit reply"
  ticks_now :: "event list \<Rightarrow> int"
  ticks_period :: int
  float_of_text :: "string \<Rightarrow> real option"

definition scpi :: "instrument \<Rightarrow> scpi_cmd \<Rightarrow> event list \<Rightarrow> py_val reply \<times> event list" where
  "scpi dev c tr =
     (case scpi_reply dev tr c of
        Ret v \<Rightarrow> (Ret v, tr @ [Call (Scpi c)])
      | Raise \<Rightarrow> (Raise, tr @ [Failed (Scpi c)]))"

definition getU :: "instrument \<Rightarrow> nat \<Rightarrow> event list \<Rightarrow> real reply \<times> event list" where
  "getU dev ch tr =
     (case getU_reply dev tr ch of
        Ret v \<Rightarrow> (Ret v, tr @ [Call (GetU ch)])
      | Raise \<Rightarrow> (Raise, tr @ [Failed (GetU ch)]))"

definition getI :: "instrument \<Rightarrow> nat \<Rightarrow> event list \<Rightarrow> real reply \<times> event list" where
  "getI dev ch tr =
     (case getI_reply dev tr ch of
        Ret v \<Rightarrow> (Ret v, tr @ [Call (GetI ch)])
      | Raise \<Rightarrow> (Raise, tr @ [Failed (GetI ch)]))"

definition setU :: "instrument \<Rightarrow> nat \<Rightarrow> real \<Rightarrow> event list \<Rightarrow> unit reply \<times> event list" where
  "setU dev ch v tr =
     (case setU_reply dev tr ch v of
        Ret u \<Rightarrow> (Ret u, tr @ [Call (SetU ch v)])
      | Raise \<Rightarrow> (Raise, tr @ [Failed (SetU ch v)]))"

definition ticks_ms :: "instrument \<Rightarrow> event list \<Rightarrow> int \<times> event list" where
  "ticks_ms dev tr = (ticks_now dev tr mod ticks_period dev, tr @ [Call TicksMs])"

definition ticks_add :: "instrument \<Rightarrow> int \<Rightarrow> int \<Rightarrow> int" where
  "ticks_add dev ticks delta = (ticks + delta) mod ticks_period dev"

definition ticks_diff :: "instrument \<Rightarrow> int \<Rightarrow> int \<Rightarrow> int" where
  "ticks_diff dev ticks1 ticks2 =
     (ticks1 - ticks2 + ticks_period dev div 2) mod ticks_period dev - ticks_period dev div 2"

definition py_float :: "instrument \<Rightarrow> py_val \<Rightarrow> real option" where
  "py_float dev v =
     (case v of PNone \<Rightarrow> None | PNum x \<Rightarrow> Some x | PStr txt \<Rightarrow> float_of_text dev txt)"

text \<open>Commands sent one after the other, their replies dropped, up to the first that raises.\<close>

fun scpi_seq :: "instrument \<Rightarrow> scpi_cmd list \<Rightarrow> event list \<Rightarrow> bool \<times> event list" where
  "scpi_seq dev [] tr = (True, tr)"
| "scpi_seq dev (c # cs) tr =
     (case scpi dev c tr of
        (Ret v, tr') \<Rightarrow> scpi_seq dev cs tr'
      | (Raise, tr') \<Rightarrow> (False, tr'))"

subsection \<open>The session and its handlers\<close>

text \<open>
  The global variables of the script; \<open>t_last\<close> is the global \<open>t\<close>, the deadline of the
  iteration before.
\<close>

record session =
  running :: bool
  voltage_offset :: real
  current_limit :: real
  target_voltage_set :: real
  loop_count :: nat
  t_last :: int

definition initial_session :: session where
  "initial_session =
     \<lparr>running = False, voltage_offset = 0, current_limit = 0.1, target_voltage_set = 0,
      loop_count = 0, t_last = 0\<rparr>"

datatype status = Done | Raised | Closing

definition display_failed :: "event list \<Rightarrow> (real \<times> real \<times> real) \<times> event list" where
  "display_failed tr = ((0, 0, 0), tr @ [Print ''Display update ERROR:''])"

definition updateDisplay ::
  "instrument \<Rightarrow> session \<Rightarrow> event list \<Rightarrow> (real \<times> real \<times> real) \<times> event list" where
  "updateDisplay dev s tr =
     (case scpi dev (InstNsel 1) tr of
        (Raise, tr1) \<Rightarrow> display_failed tr1
      | (Ret r1, tr1) \<Rightarrow>
     (case getU dev 1 tr1 of
        (Raise, tr2) \<Rightarrow> display_failed tr2
      | (Ret ch1_voltage, tr2) \<Rightarrow>
     (case getI dev 1 tr2 of
        (Raise, tr3) \<Rightarrow> display_failed tr3
      | (Ret ch1_current, tr3) \<Rightarrow>
     (case scpi dev (InstNsel 2) tr3 of
        (Raise, tr4) \<Rightarrow> display_failed tr4
      | (Ret r4, tr4) \<Rightarrow>
     (case getU dev 2 tr4 of
        (Raise, tr5) \<Rightarrow> display_failed tr5
      | (Ret ch2_voltage, tr5) \<Rightarrow>
     (case getI dev 2 tr5 of
        (Raise, tr6) \<Rightarrow> display_failed tr6
      | (Ret ch2_current, tr6) \<Rightarrow>
     (case scpi_seq dev
             [DialData ''source_voltage'' (FLOAT VOLT ch1_voltage),
              DialData ''target_voltage'' (FLOAT VOLT ch2_voltage),
              DialData ''target_current'' (FLOAT AMPER ch2_current),
              DialData ''voltage_offset'' (FLOAT3 VOLT (voltage_offset s)),
              DialData ''current_limit'' (FLOAT3 AMPER (current_limit s))] tr6 of
        (False, tr7) \<Rightarrow> display_failed tr7
      | (True, tr7) \<Rightarrow> ((ch1_voltage, ch2_voltage, ch2_current), tr7))))))))"

definition enable_commands :: "session \<Rightarrow> scpi_cmd list" where
  "enable_commands s =
     [DialData ''status'' (STRING ''RUNNING''), InstNsel 2, Curr (current_limit s), Outp True]"

definition startControl :: "instrument \<Rightarrow> session \<Rightarrow> event list \<Rightarrow> status \<times> session \<times> event list" where
  "startControl dev s tr =
     (let s1 = s\<lparr>running := True\<rparr> in
      case scpi_seq dev (enable_commands s1) (tr @ [Print ''START button pressed'']) of
        (True, tr1) \<Rightarrow> (Done, s1, tr1 @ [Print ''Output enabled''])
      | (False, tr1) \<Rightarrow> (Raised, s1, tr1))"

definition disable_commands :: "scpi_cmd list" where
  "disable_commands = [DialData ''status'' (STRING ''STOPPED''), InstNsel 2, Outp False]"

definition stopControl :: "instrument \<Rightarrow> session \<Rightarrow> event list \<Rightarrow> status \<times> session \<times> event list" where
  "stopControl dev s tr =
     (let s1 = s\<lparr>running := False\<rparr> in
      case scpi_seq dev disable_commands (tr @ [Print ''STOP button pressed'']) of
        (True, tr1) \<Rightarrow> (Done, s1, tr1 @ [Print ''Output disabled''])
      | (False, tr1) \<Rightarrow> (Raised, s1, tr1))"

definition offset_failed :: "session \<Rightarrow> event list \<Rightarrow> session \<times> event list" where
  "offset_failed s tr = (s, tr @ [Print ''Offset config ERROR:''])"

definition configVoltageOffset :: "instrument \<Rightarrow> session \<Rightarrow> event list \<Rightarrow> session \<times> event list" where
  "configVoltageOffset dev s tr =
     (case getU dev 1 (tr @ [Print ''Config Voltage Offset'']) of
        (Raise, tr1) \<Rightarrow> offset_failed s tr1
      | (Ret ch1_v, tr1) \<Rightarrow>
          (let min_offset = - ch1_v;
               max_offset = 40 - ch1_v
           in case scpi dev (DispInputQ ''Voltage Offset'' VOLT min_offset max_offset
                               (voltage_offset s)) tr1 of
                (Raise, tr2) \<Rightarrow> offset_failed s tr2
              | (Ret val, tr2) \<Rightarrow>
                  if val \<noteq> PNone then
                    (case py_float dev val of
                       None \<Rightarrow> offset_failed s tr2
                     | Some x \<Rightarrow> (s\<lparr>voltage_offset := x\<rparr>, tr2 @ [Print ''Offset:'']))
                  else (s, tr2)))"

definition configCurrentLimit ::
  "instrument \<Rightarrow> session \<Rightarrow> event list \<Rightarrow> status \<times> session \<times> event list" where
  "configCurrentLimit dev s tr =
     (case scpi dev (DispInputQ ''Current Limit'' AMPER 0.05 5 (current_limit s))
             (tr @ [Print ''Config Current Limit'']) of
        (Raise, tr1) \<Rightarrow> (Raised, s, tr1)
      | (Ret val, tr1) \<Rightarrow>
          if val \<noteq> PNone then
            (case py_float dev val of
               None \<Rightarrow> (Raised, s, tr1)
             | Some x \<Rightarrow>
                 (let s1 = s\<lparr>current_limit := x\<rparr> in
                  case scpi_seq dev [InstNsel 2, Curr (current_limit s1)] tr1 of
                    (True, tr2) \<Rightarrow> (Done, s1, tr2 @ [Print ''Current limit set to:''])
                  | (False, tr2) \<Rightarrow> (Raised, s1, tr2)))
          else (Done, s, tr1))"

subsection \<open>The main loop\<close>

text \<open>
  Lines 226 to 238: while running, the target is the source reading plus the offset,
  brought back into the range of the device, and is sent to channel 2.
\<close>

definition drive_output ::
  "instrument \<Rightarrow> session \<Rightarrow> real \<Rightarrow> event list \<Rightarrow> status \<times> session \<times> event list" where
  "drive_output dev s ch1_v tr =
     (if running s then
        (let sum = ch1_v + voltage_offset s;
             target = (if sum < 0 then 0 else if sum > 40 then 40 else sum);
             s1 = s\<lparr>target_voltage_set := target\<rparr>
         in case scpi dev (InstNsel 2) tr of
              (Raise, tr1) \<Rightarrow> (Raised, s1, tr1)
            | (Ret r1, tr1) \<Rightarrow>
                (case setU dev 2 target tr1 of
                   (Raise, tr2) \<Rightarrow> (Raised, s1, tr2)
                 | (Ret r2, tr2) \<Rightarrow> (Done, s1, tr2)))
      else (Done, s, tr))"

text \<open>The target that this step leaves in the session.\<close>

definition target_after :: "instrument \<Rightarrow> session \<Rightarrow> real \<Rightarrow> event list \<Rightarrow> real" where
  "target_after dev s v tr = target_voltage_set (fst (snd (drive_output dev s v tr)))"

text \<open>The clamp in the words of the specification, to compare the code with.\<close>

definition spec_clamp :: "real \<Rightarrow> real \<Rightarrow> real \<Rightarrow> real" where
  "spec_clamp x lo hi = max lo (min x hi)"

definition fullScale :: real where
  "fullScale = 40"

text \<open>The prompt that \<open>configVoltageOffset\<close> opens when the source reads \<open>v\<close>.\<close>

definition offset_prompt :: "session \<Rightarrow> real \<Rightarrow> scpi_cmd" where
  "offset_prompt s v = DispInputQ ''Voltage Offset'' VOLT (- v) (fullScale - v) (voltage_offset s)"

definition dispatch ::
  "instrument \<Rightarrow> py_val \<Rightarrow> session \<Rightarrow> event list \<Rightarrow> status \<times> session \<times> event list" where
  "dispatch dev action s tr =
     (if action = PStr ''start_control'' then startControl dev s tr
      else if action = PStr ''stop_control'' then stopControl dev s tr
      else if action = PStr ''config_voltage_offset'' then
        (case configVoltageOffset dev s tr of (s1, tr1) \<Rightarrow> (Done, s1, tr1))
      else if action = PStr ''config_current_limit'' then configCurrentLimit dev s tr
      else if action = PStr ''close_dialog'' then
        (Closing, s, tr @ [Print ''Close requested by user''])
      else (Done, s, tr))"

datatype loop_result = Continue | BreakClose | BreakError

definition loop_error :: "session \<Rightarrow> event list \<Rightarrow> loop_result \<times> session \<times> event list" where
  "loop_error s tr = (BreakError, s, tr @ [Print ''Loop ERROR:''])"

definition status_line :: "session \<Rightarrow> event list \<Rightarrow> session \<times> event list" where
  "status_line s tr =
     (if loop_count s + 1 \<ge> 10
      then (s\<lparr>loop_count := 0\<rparr>, tr @ [Print (if running s then ''RUNNING'' else ''READY'')])
      else (s\<lparr>loop_count := loop_count s + 1\<rparr>, tr))"

text \<open>One pass through the body of \<open>while True\<close>, lines 203 to 253.\<close>

definition loop_iteration ::
  "instrument \<Rightarrow> session \<Rightarrow> event list \<Rightarrow> loop_result \<times> session \<times> event list" where
  "loop_iteration dev s tr =
     (let t_next = ticks_add dev (t_last s) 500 in
      case ticks_ms dev tr of (now, tr0) \<Rightarrow>
      (let timeout_ms = max 10 (ticks_diff dev t_next now) in
       case scpi dev (DialActionQ timeout_ms) tr0 of
         (Raise, tr1) \<Rightarrow> loop_error s tr1
       | (Ret action, tr1) \<Rightarrow>
           (case dispatch dev action s tr1 of
              (Raised, s2, tr2) \<Rightarrow> loop_error s2 tr2
            | (Closing, s2, tr2) \<Rightarrow> (BreakClose, s2, tr2)
            | (Done, s2, tr2) \<Rightarrow>
                (case updateDisplay dev s2 tr2 of ((ch1_v, ch2_v, ch2_i), tr3) \<Rightarrow>
                 (case drive_output dev s2 ch1_v tr3 of
                    (Done, s4, tr4) \<Rightarrow>
                      (case status_line s4 tr4 of (s5, tr5) \<Rightarrow>
                         (Continue, s5\<lparr>t_last := t_next\<rparr>, tr5))
                  | (st, s4, tr4) \<Rightarrow> loop_error s4 tr4)))))"

text \<open>
  The loop may run for ever, so it is run with fuel: \<open>None\<close> says that it has not left
  the loop after that many iterations.
\<close>

fun main_loop ::
  "nat \<Rightarrow> instrument \<Rightarrow> session \<Rightarrow> event list \<Rightarrow> (loop_result \<times> session \<times> event list) option" where
  "main_loop 0 dev s tr = None"
| "main_loop (Suc n) dev s tr =
     (case loop_iteration dev s tr of
        (Continue, s1, tr1) \<Rightarrow> main_loop n dev s1 tr1
      | (r, s1, tr1) \<Rightarrow> Some (r, s1, tr1))"

text \<open>The session after \<open>n\<close> iterations that all went on, to look inside a running loop.\<close>

fun iterations ::
  "nat \<Rightarrow> instrument \<Rightarrow> session \<Rightarrow> event list \<Rightarrow> (session \<times> event list) option" where
  "iterations 0 dev s tr = Some (s, tr)"
| "iterations (Suc n) dev s tr =
     (case loop_iteration dev s tr of
        (Continue, s1, tr1) \<Rightarrow> iterations n dev s1 tr1
      | (r, s1, tr1) \<Rightarrow> None)"

definition cleanup_commands :: "scpi_cmd list" where
  "cleanup_commands = [InstNsel 2, Outp False, DialClose]"

definition cleanup :: "instrument \<Rightarrow> event list \<Rightarrow> event list" where
  "cleanup dev tr =
     (case scpi_seq dev cleanup_commands (tr @ [Print ''Cleaning up...'']) of
        (True, tr1) \<Rightarrow>
          tr1 @ [Print ''Dialog closed, output disabled'',
                 Print ''=== DCP405 VOLTAGE FOLLOWER END ==='']
      | (False, tr1) \<Rightarrow>
          tr1 @ [Print ''Cleanup ERROR:'', Print ''=== DCP405 VOLTAGE FOLLOWER END ===''])"

text \<open>Lines 195 to 200: the session and the trace with which the loop is entered.\<close>

definition loop_entry :: "instrument \<Rightarrow> session \<Rightarrow> event list \<Rightarrow> session \<times> event list" where
  "loop_entry dev s tr =
     (case ticks_ms dev (tr @ [Print ''Waiting for user actions...'',
                               Print ''Voltage Follower Mode: Output = Input + Offset'']) of
        (now, tr0) \<Rightarrow> (s\<lparr>loop_count := 0, t_last := now\<rparr>, tr0))"

text \<open>Lines 195 to 265: the loop, then the cleanup.\<close>

definition polling_script ::
  "nat \<Rightarrow> instrument \<Rightarrow> session \<Rightarrow> event list \<Rightarrow> (loop_result \<times> session \<times> event list) option" where
  "polling_script n dev s tr =
     (case loop_entry dev s tr of (s0, tr0) \<Rightarrow>
      (case main_loop n dev s0 tr0 of
         None \<Rightarrow> None
       | Some (r, s1, tr1) \<Rightarrow> Some (r, s1, cleanup dev tr1)))"

text \<open>The calls of a trace, returned or failed, in order.\<close>

fun attempted :: "event list \<Rightarrow> call list" where
  "attempted [] = []"
| "attempted (Call c # es) = c # attempted es"
| "attempted (Failed c # es) = c # attempted es"
| "attempted (Print m # es) = attempted es"

text \<open>The events a run has added to the trace it started with.\<close>

definition since :: "event list \<Rightarrow> event list \<Rightarrow> event list" where
  "since tr tr' = drop (length tr) tr'"

text \<open>
  How the errors of one iteration are handled, read off the events it has added: every
  failed call is followed at once by the line of the handler that caught it, and when that
  is the handler of the loop the line is the last event and the loop is left.
\<close>

fun errors_handled :: "loop_result \<Rightarrow> event list \<Rightarrow> bool" where
  "errors_handled r [] = True"
| "errors_handled r [Failed c] = False"
| "errors_handled r (Failed c # e # es) =
     (e = Print ''Display update ERROR:'' \<and> errors_handled r es \<or>
      e = Print ''Offset config ERROR:'' \<and> errors_handled r es \<or>
      e = Print ''Loop ERROR:'' \<and> es = [] \<and> r = BreakError)"
| "errors_handled r (Call c # es) = errors_handled r es"
| "errors_handled r (Print m # es) = errors_handled r es"

text \<open>
  The same, with the handler named. Which handler catches the failure of a call is read
  off the call and the event before it: the calls of \<open>updateDisplay\<close> (the selection of
  channel 1, the readings, the telemetry fields, and the selection of channel 2 that
  comes right after the reading of the current of channel 1) are caught there, the
  reading and the prompt of \<open>configVoltageOffset\<close> are caught there, and every other call
  (the action poll, the commands of start, stop and the current limit, the selection of
  channel 2 and \<open>setU\<close> of the output step) is caught by the loop. After the line of the
  loop nothing follows and the loop is left; after the two others the iteration goes on.
\<close>

datatype catcher = ByDisplay | ByOffset | ByLoop

fun caught_by :: "event option \<Rightarrow> call \<Rightarrow> catcher" where
  "caught_by prev (GetU ch) =
     (if prev = Some (Print ''Config Voltage Offset'') then ByOffset else ByDisplay)"
| "caught_by prev (GetI ch) = ByDisplay"
| "caught_by prev (Scpi (InstNsel n)) =
     (if n = 1 \<or> prev = Some (Call (GetI 1)) then ByDisplay else ByLoop)"
| "caught_by prev (Scpi (DialData name v)) = (if name = ''status'' then ByLoop else ByDisplay)"
| "caught_by prev (Scpi (DispInputQ label u lo hi dflt)) =
     (if label = ''Voltage Offset'' then ByOffset else ByLoop)"
| "caught_by prev c = ByLoop"

fun handler_line :: "catcher \<Rightarrow> event" where
  "handler_line ByDisplay = Print ''Display update ERROR:''"
| "handler_line ByOffset = Print ''Offset config ERROR:''"
| "handler_line ByLoop = Print ''Loop ERROR:''"

fun errors_routed :: "loop_result \<Rightarrow> event option \<Rightarrow> event list \<Rightarrow> bool" where
  "errors_routed r prev [] = True"
| "errors_routed r prev [Failed c] = False"
| "errors_routed r prev (Failed c # e # es) =
     (e = handler_line (caught_by prev c) \<and>
      (if caught_by prev c = ByLoop then es = [] \<and> r = BreakError
       else errors_routed r (Some e) es))"
| "errors_routed r prev (Call c # es) = errors_routed r (Some (Call c)) es"
| "errors_routed r prev (Print m # es) = errors_routed r (Some (Print m)) es"

fun is_failed :: "event \<Rightarrow> bool" where
  "is_failed (Failed c) = True"
| "is_failed e = False"

fun commanded_targets :: "event list \<Rightarrow> real list" where
  "commanded_targets [] = []"
| "commanded_targets (Call (SetU ch v) # es) = v # commanded_targets es"
| "commanded_targets (e # es) = commanded_targets es"

text \<open>
  Two shapes of a run of events: none of its calls failed; or its last event is a failed
  call and no call before it failed, which is how an exception leaves a handler.
\<close>

definition quiet :: "event list \<Rightarrow> bool" where
  "quiet es \<longleftrightarrow> \<not> list_ex is_failed es"

definition raising :: "event list \<Rightarrow> bool" where
  "raising es \<longleftrightarrow> (\<exists>q c. es = q @ [Failed c] \<and> quiet q)"

subsection \<open>Instruments to run the script against\<close>

definition count_calls :: "call \<Rightarrow> event list \<Rightarrow> nat" where
  "count_calls c tr = length (filter (\<lambda>e. e = Call c) tr)"

text \<open>
  An instrument that never fails and whose user never acts; its source reads 1.0, 2.0,
  3.0 and so on, one volt more at each reading, and its clock advances by 500 ms at each
  reading of it.
\<close>

definition ramp_source :: instrument where
  "ramp_source =
     \<lparr>scpi_reply = (\<lambda>tr c. Ret PNone),
      getU_reply = (\<lambda>tr ch. if ch = 1 then Ret (1 + real (count_calls (GetU 1) tr)) else Ret 0),
      getI_reply = (\<lambda>tr ch. Ret 0),
      setU_reply = (\<lambda>tr ch v. Ret ()),
      ticks_now = (\<lambda>tr. 500 * int (count_calls TicksMs tr)),
      ticks_period = 2 ^ 30,
      float_of_text = (\<lambda>txt. None)\<rparr>"

definition following :: session where
  "following = initial_session\<lparr>running := True, voltage_offset := 0.5\<rparr>"

text \<open>The same instrument with a source channel that cannot be read.\<close>

definition blind_source :: instrument where
  "blind_source = ramp_source\<lparr>getU_reply := (\<lambda>tr ch. if ch = 1 then Raise else Ret 0)\<rparr>"

text \<open>An instrument whose user asks for the given action at every poll.\<close>

definition user_asks :: "string \<Rightarrow> instrument" where
  "user_asks a =
     ramp_source\<lparr>scpi_reply := (\<lambda>tr c. case c of DialActionQ ms \<Rightarrow> Ret (PStr a) | _ \<Rightarrow> Ret PNone)\<rparr>"

text \<open>An instrument that has stopped answering: every call raises.\<close>

definition dead_instrument :: instrument where
  "dead_instrument =
     ramp_source\<lparr>scpi_reply := (\<lambda>tr c. Raise), getU_reply := (\<lambda>tr ch. Raise),
                 getI_reply := (\<lambda>tr ch. Raise), setU_reply := (\<lambda>tr ch v. Raise)\<rparr>"

text \<open>An instrument whose action poll raises while everything else answers.\<close>

definition poll_fails :: instrument where
  "poll_fails =
     ramp_source\<lparr>scpi_reply := (\<lambda>tr c. case c of DialActionQ ms \<Rightarrow> Raise | _ \<Rightarrow> Ret PNone)\<rparr>"

text \<open>An instrument on which only the selection of channel 2 raises; its user closes.\<close>

definition select_fails :: instrument where
  "select_fails =
     \<lparr>scpi_reply = (\<lambda>tr c. case c of
                        DialActionQ ms \<Rightarrow> Ret (PStr ''close_dialog'')
                      | InstNsel n \<Rightarrow> if n = 2 then Raise else Ret PNone
                      | _ \<Rightarrow> Ret PNone),
      getU_reply = (\<lambda>tr ch. Ret 1),
      getI_reply = (\<lambda>tr ch. Ret 0),
      setU_reply = (\<lambda>tr ch v. Ret ()),
      ticks_now = (\<lambda>tr. 0),
      ticks_period = 2 ^ 30,
      float_of_text = (\<lambda>txt. None)\<rparr>"

text \<open>
  An instrument whose user opens the offset prompt and whose prompt answers the given
  number, whatever bounds it was given; the source reads 1 volt.
\<close>

definition prompt_answers :: "real \<Rightarrow> instrument" where
  "prompt_answers x =
     ramp_source\<lparr>scpi_reply :=
       (\<lambda>tr c. case c of
                  DialActionQ ms \<Rightarrow> Ret (PStr ''config_voltage_offset'')
                | DispInputQ label u lo hi dflt \<Rightarrow> Ret (PNum x)
                | _ \<Rightarrow> Ret PNone),
       getU_reply := (\<lambda>tr ch. Ret 1)\<rparr>"

section \<open>The DMM6500 screenshot tool (take\_screenshot\_dmm6500\_githubversion.py)\<close>

text \<open>
  The browser driver is the environment: what each of its operations returns or raises.
  \<open>TimeoutException\<close> is a \<open>WebDriverException\<close>; \<open>OtherException\<close> stands for any other
  exception (a \<open>ValueError\<close>, an \<open>OSError\<close>). The driver calls are recorded by name; the
  console output of this tool is not modelled.
\<close>

datatype web_exn = TimeoutException | WebDriverException | OtherException

datatype 'a outcome = Returns 'a | Raises web_exn

record browser_env =
  dmm_timestamp :: string
  new_driver :: "string \<Rightarrow> bool \<Rightarrow> unit outcome"
  driver_get :: "string \<Rightarrow> unit outcome"
  wait_canvas :: "unit outcome"
  find_element :: "string \<Rightarrow> unit outcome"
  get_screenshot_as_png :: "bytes outcome"
  set_window_size :: "unit outcome"
  screenshot_as_png :: "string \<Rightarrow> bytes outcome"
  execute_script :: "string outcome"
  b64decode :: "string \<Rightarrow> bytes outcome"
  open_and_write :: "string \<Rightarrow> bytes \<Rightarrow> unit outcome"
  driver_quit :: "unit outcome"

definition lower_char :: "char \<Rightarrow> char" where
  "lower_char c =
     (if 65 \<le> (of_char c :: nat) \<and> (of_char c :: nat) \<le> 90
      then char_of ((of_char c :: nat) + 32) else c)"

definition is_webdriver_exception :: "web_exn \<Rightarrow> bool" where
  "is_webdriver_exception e \<longleftrightarrow> e = WebDriverException \<or> e = TimeoutException"

text \<open>\<open>create_driver\<close>: \<open>Returns False\<close> is the \<open>None\<close> of line 84.\<close>

definition create_driver :: "browser_env \<Rightarrow> bool \<Rightarrow> string \<Rightarrow> bool outcome" where
  "create_driver env headless browser =
     (let b = map lower_char browser in
      if b = ''chrome'' \<or> b = ''firefox'' \<or> b = ''edge'' then
        (case new_driver env b headless of
           Returns u \<Rightarrow> Returns True
         | Raises e \<Rightarrow> if is_webdriver_exception e then Returns False else Raises e)
      else Raises OtherException)"

text \<open>
  What the body of the \<open>try\<close> statement yields: the value it returns or the exception that
  leaves it, the file it has written, and the driver calls it has made.
\<close>

record attempt =
  yields :: "web_exn + bool"
  written :: "(string \<times> bytes) option"
  calls :: "string list"

definition raised :: "web_exn \<Rightarrow> string list \<Rightarrow> attempt" where
  "raised e cs = \<lparr>yields = Inl e, written = None, calls = cs\<rparr>"

definition returns :: "bool \<Rightarrow> string list \<Rightarrow> attempt" where
  "returns b cs = \<lparr>yields = Inr b, written = None, calls = cs\<rparr>"

text \<open>Lines 159 to 167: the image is saved and the function returns True.\<close>

definition save_image :: "browser_env \<Rightarrow> string \<Rightarrow> bytes \<Rightarrow> string list \<Rightarrow> attempt" where
  "save_image env filename image_data cs =
     (case open_and_write env filename image_data of
        Raises e \<Rightarrow> raised e cs
      | Returns u \<Rightarrow> \<lparr>yields = Inr True, written = Some (filename, image_data), calls = cs\<rparr>)"

text \<open>Lines 124 to 143, the capture of the front panel.\<close>

definition capture_fullpage :: "browser_env \<Rightarrow> string \<Rightarrow> string list \<Rightarrow> attempt" where
  "capture_fullpage env filename cs =
     (let cs1 = cs @ [''find_element bumper''];
          cs2 = cs1 @ [''find_element contentWrapper''];
          found =
            (case find_element env ''bumper'' of
               Returns u \<Rightarrow> Some (''bumper'', cs1)
             | Raises e1 \<Rightarrow>
                 (case find_element env ''contentWrapper'' of
                    Returns u \<Rightarrow> Some (''contentWrapper'', cs2)
                  | Raises e2 \<Rightarrow> None))
      in case found of
           None \<Rightarrow>
             (case get_screenshot_as_png env of
                Raises e \<Rightarrow> raised e (cs2 @ [''get_screenshot_as_png''])
              | Returns image_data \<Rightarrow> returns True (cs2 @ [''get_screenshot_as_png'']))
         | Some (front_panel, cs3) \<Rightarrow>
             (case set_window_size env of
                Raises e \<Rightarrow> raised e (cs3 @ [''set_window_size''])
              | Returns u \<Rightarrow>
                  (case screenshot_as_png env front_panel of
                     Raises e \<Rightarrow> raised e (cs3 @ [''set_window_size'', ''screenshot_as_png''])
                   | Returns image_data \<Rightarrow>
                       save_image env filename image_data
                         (cs3 @ [''set_window_size'', ''screenshot_as_png'']))))"

text \<open>Lines 145 to 157, the capture of the canvas alone.\<close>

definition data_url_prefix :: string where
  "data_url_prefix = ''data:image/png;base64,''"

definition capture_canvas :: "browser_env \<Rightarrow> string \<Rightarrow> string list \<Rightarrow> attempt" where
  "capture_canvas env filename cs =
     (case execute_script env of
        Raises e \<Rightarrow> raised e (cs @ [''execute_script''])
      | Returns canvas_data_url \<Rightarrow>
          if \<not> prefix data_url_prefix canvas_data_url
          then returns False (cs @ [''execute_script''])
          else
            (case b64decode env (drop (length data_url_prefix) canvas_data_url) of
               Raises e \<Rightarrow> raised e (cs @ [''execute_script''])
             | Returns image_data \<Rightarrow>
                 save_image env filename image_data (cs @ [''execute_script''])))"

text \<open>Lines 99 to 167, the body of the \<open>try\<close> statement once the driver exists.\<close>

definition try_body ::
  "browser_env \<Rightarrow> string \<Rightarrow> string \<Rightarrow> real \<Rightarrow> bool \<Rightarrow> attempt" where
  "try_body env filename auth_url wait_time fullpage =
     (case driver_get env auth_url of
        Raises e \<Rightarrow> raised e [''get'']
      | Returns u1 \<Rightarrow>
          (case wait_canvas env of
             Raises e \<Rightarrow> raised e [''get'', ''wait DisplayCanvas'']
           | Returns u2 \<Rightarrow>
               if wait_time < 0 then raised OtherException [''get'', ''wait DisplayCanvas'']
               else if fullpage
               then capture_fullpage env filename [''get'', ''wait DisplayCanvas'']
               else capture_canvas env filename [''get'', ''wait DisplayCanvas'']))"

text \<open>
  The function: every exception of the body is caught by one of the two handlers, which
  return False; the \<open>finally\<close> clause quits the driver if there is one, and an exception
  of \<open>quit\<close> leaves the function in place of the value.
\<close>

record dmm_shot =
  result :: "bool outcome"
  saved :: "(string \<times> bytes) option"
  driver_calls :: "string list"

definition dmm_take_screenshot ::
  "browser_env \<Rightarrow> string option \<Rightarrow> string \<Rightarrow> string \<Rightarrow> string \<Rightarrow> bool \<Rightarrow> string \<Rightarrow> real \<Rightarrow> bool
   \<Rightarrow> dmm_shot" where
  "dmm_take_screenshot env filename_arg ip username password headless browser wait_time fullpage =
     (let filename =
            (case filename_arg of
               None \<Rightarrow> ''dmm6500_screenshot_'' @ dmm_timestamp env @ ''.png''
             | Some f \<Rightarrow> f);
          auth_url = ''http://'' @ username @ '':'' @ password @ ''@'' @ ip @ ''/front_panel.html''
      in case create_driver env headless browser of
           Raises e \<Rightarrow> \<lparr>result = Returns False, saved = None, driver_calls = []\<rparr>
         | Returns False \<Rightarrow> \<lparr>result = Returns False, saved = None, driver_calls = []\<rparr>
         | Returns True \<Rightarrow>
             (let a = try_body env filename auth_url wait_time fullpage;
                  success = (case yields a of Inl e \<Rightarrow> False | Inr b \<Rightarrow> b)
              in case driver_quit env of
                   Raises e \<Rightarrow>
                     \<lparr>result = Raises e, saved = written a, driver_calls = calls a @ [''quit'']\<rparr>
                 | Returns u \<Rightarrow>
                     \<lparr>result = Returns success, saved = written a,
                      driver_calls = calls a @ [''quit'']\<rparr>))"

text \<open>
  Lines 219 to 230: the exit status of the process. An exception that leaves
  \<open>take_screenshot\<close> is not caught, and the interpreter exits with status 1.
\<close>

definition exit_status :: "dmm_shot \<Rightarrow> nat" where
  "exit_status r = (case result r of Returns True \<Rightarrow> 0 | Returns False \<Rightarrow> 1 | Raises e \<Rightarrow> 1)"

text \<open>
  A browser in which the page loads and the canvas appears, but neither front panel
  element exists; every other operation succeeds.
\<close>

definition panel_missing :: browser_env where
  "panel_missing =
     \<lparr>dmm_timestamp = ''20250101_000000'',
      new_driver = (\<lambda>b h. Returns ()),
      driver_get = (\<lambda>url. Returns ()),
      wait_canvas = Returns (),
      find_element = (\<lambda>name. Raises WebDriverException),
      get_screenshot_as_png = Returns ''PNG'',
      set_window_size = Returns (),
      screenshot_as_png = (\<lambda>name. Returns ''PNG''),
      execute_script = Returns ''data:image/png;base64,UE5H'',
      b64decode = (\<lambda>txt. Returns ''PNG''),
      open_and_write = (\<lambda>name image_data. Returns ()),
      driver_quit = Returns ()\<rparr>"

section \<open>Properties of the BB3 screenshot tool\<close>

lemma parse_block_payload:
  assumes "startswith_hash data" and "1 < length data" and "is_digit (data ! 1)"
    and "d = nat (digit_value (data ! 1))"
    and "py_int (py_slice data 2 (2 + int d)) = Some (int L)"
    and "2 + d + L \<le> length data"
  shows "parse_block data = Inr (take L (drop (2 + d) data))"
proof -
  have "0 \<le> digit_value (data ! 1)"
    using assms(3) by (simp add: is_digit_def digit_value_def)
  then have d: "digit_value (data ! 1) = int d"
    using assms(4) by simp
  have "py_slice data (2 + int d) (2 + int d + int L) = take L (drop (2 + d) data)"
    using assms(6) by (simp add: py_slice_def Let_def min_def nat_add_distrib)
  then show ?thesis
    using assms(1,2,3,5) d by (simp add: parse_block_def)
qed

lemma py_int_123: "py_int ''123'' = Some 123"
  by (simp add: py_int_def is_space_def is_digit_def is_underscore_def digit_value_def)

lemma parse_block_3123:
  assumes "length payload = 123"
  shows "parse_block (''#3123'' @ payload) = Inr payload"
proof -
  have "parse_block (''#3123'' @ payload) = Inr (take 123 (drop (2 + 3) (''#3123'' @ payload)))"
  proof (rule parse_block_payload)
    show "py_int (py_slice (''#3123'' @ payload) 2 (2 + int 3)) = Some (int 123)"
      using assms by (simp add: py_slice_def py_int_123)
  qed (use assms in \<open>simp_all add: startswith_hash_def is_digit_def digit_value_def\<close>)
  then show ?thesis using assms by simp
qed

lemma parse_block_no_marker:
  assumes "data = [] \<or> hd data \<noteq> CHR ''#''"
  shows "parse_block data = Inl FormatError"
  using assms by (auto simp: parse_block_def startswith_hash_def)

text \<open>
  Claim C1. A buffer that starts with the marker \<open>#\<close>, whose byte 1 is an ASCII digit
  \<open>d\<close>, whose bytes from 2 to \<open>2 + d\<close> are read by \<open>int\<close> as the length \<open>L\<close>, and that
  holds at least \<open>2 + d + L\<close> bytes, is decoded to the \<open>L\<close> bytes that start at position
  \<open>2 + d\<close>. The buffer \<open>#3123\<close> followed by any 123 bytes is decoded to those 123 bytes.
\<close>

theorem block_decode_returns_payload:
  "(startswith_hash data \<and> 1 < length data \<and> is_digit (data ! 1) \<and>
    d = nat (digit_value (data ! 1)) \<and>
    py_int (py_slice data 2 (2 + int d)) = Some (int L) \<and>
    2 + d + L \<le> length data
    \<longrightarrow> parse_block data = Inr (take L (drop (2 + d) data))) \<and>
   (length payload = 123 \<longrightarrow> parse_block (''#3123'' @ payload) = Inr payload)"
  using parse_block_payload [of data d L] parse_block_3123 [of payload] by blast

theorem block_decode_returns_payload_witness:
  "startswith_hash (''#15hello'' @ [CHR 0x0A]) \<and>
   is_digit ((''#15hello'' @ [CHR 0x0A]) ! 1) \<and>
   digit_value ((''#15hello'' @ [CHR 0x0A]) ! 1) = 1 \<and>
   py_int (py_slice (''#15hello'' @ [CHR 0x0A]) 2 (2 + int 1)) = Some (int 5) \<and>
   parse_block (''#15hello'' @ [CHR 0x0A]) = Inr ''hello'' \<and>
   parse_block (''#3123'' @ replicate 123 (CHR ''x'')) = Inr (replicate 123 (CHR ''x''))"
proof -
  have h: "startswith_hash (''#15hello'' @ [CHR 0x0A])"
    "is_digit ((''#15hello'' @ [CHR 0x0A]) ! 1)"
    "digit_value ((''#15hello'' @ [CHR 0x0A]) ! 1) = 1"
    "py_int (py_slice (''#15hello'' @ [CHR 0x0A]) 2 (2 + int 1)) = Some (int 5)"
    by (simp_all add: startswith_hash_def is_digit_def digit_value_def py_slice_def py_int_def
        is_space_def is_underscore_def)
  show ?thesis
    using h block_decode_returns_payload
      [of "''#15hello'' @ [CHR 0x0A]" 1 5 "replicate 123 (CHR ''x'')"]
    by simp
qed

text \<open>
  Claim C3, evaluated on the code. The device declares ten payload bytes; the fourth is a
  newline and ends the first segment. The read loop stops there, the decoder returns the
  four bytes it has, and the operation writes them to the file and returns True: nothing
  reports that six declared bytes are missing.
\<close>

theorem short_read_is_saved_as_success:
  "recv_loop (recv_chunks short_read_env) (recv_end short_read_env) []
     = Inr (''#210abc'' @ [CHR 0x0A]) \<and>
   py_int (py_slice (''#210abc'' @ [CHR 0x0A]) 2 4) = Some 10 \<and>
   parse_block (''#210abc'' @ [CHR 0x0A]) = Inr (''abc'' @ [CHR 0x0A]) \<and>
   returned (take_screenshot (Some ''shot.jpg'') short_read_env) = True \<and>
   file_written (take_screenshot (Some ''shot.jpg'') short_read_env)
     = Some (''shot.jpg'', ''abc'' @ [CHR 0x0A])"
  by (simp add: short_read_env_def take_screenshot_def endswith_newline_def parse_block_def
      startswith_hash_def is_digit_def digit_value_def py_slice_def py_int_def is_space_def
      is_underscore_def)

text \<open>
  Claim C4. A buffer that is empty or whose first byte is not the marker \<open>#\<close> is refused
  with the format error. When the connection has brought such a buffer, the operation
  prints the format error, returns False and writes no file.
\<close>

theorem missing_marker_is_format_error:
  "(data = [] \<or> hd data \<noteq> CHR ''#'') \<longrightarrow>
     parse_block data = Inl FormatError \<and>
     (connect_ok env \<and> sendall_ok env \<and>
      recv_loop (recv_chunks env) (recv_end env) [] = Inr data \<longrightarrow>
        returned (take_screenshot filename env) = False \<and>
        file_written (take_screenshot filename env) = None \<and>
        last (printed (take_screenshot filename env)) = ''ERROR: Invalid response format'')"
  using parse_block_no_marker [of data]
  by (auto simp: take_screenshot_def failed_shot_def error_text_def)

theorem missing_marker_is_format_error_witness:
  "hd ''HTTP/1.0 400'' \<noteq> CHR ''#'' \<and>
   parse_block ''HTTP/1.0 400'' = Inl FormatError \<and>
   returned (take_screenshot None
     \<lparr>timestamp = ''20250101_000000'', connect_ok = True, sendall_ok = True,
      recv_chunks = [''HTTP/1.0 400''], recv_end = Closed, open_ok = True\<rparr>) = False \<and>
   file_written (take_screenshot None
     \<lparr>timestamp = ''20250101_000000'', connect_ok = True, sendall_ok = True,
      recv_chunks = [''HTTP/1.0 400''], recv_end = Closed, open_ok = True\<rparr>) = None"
  using missing_marker_is_format_error [of "''HTTP/1.0 400''"
      "\<lparr>timestamp = ''20250101_000000'', connect_ok = True, sendall_ok = True,
        recv_chunks = [''HTTP/1.0 400''], recv_end = Closed, open_ok = True\<rparr>" None]
  by (simp add: endswith_newline_def)

section \<open>Properties of the voltage follower\<close>

subsection \<open>Traces\<close>

lemma since_append [simp]: "since tr (tr @ new) = new"
  by (simp add: since_def)

lemma since_append2 [simp]: "since tr ((tr @ xs) @ ys) = xs @ ys"
  by (simp add: since_def)

lemma attempted_append [simp]: "attempted (xs @ ys) = attempted xs @ attempted ys"
  by (induction xs rule: attempted.induct) simp_all

text \<open>The trace of a command sequence.\<close>

lemma scpi_seq_trace:
  assumes "scpi_seq dev cs tr = (ok, tr')"
  shows "\<exists>new. tr' = tr @ new \<and> prefix (attempted new) (map Scpi cs) \<and>
           (ok \<longrightarrow> new = map (\<lambda>c. Call (Scpi c)) cs) \<and>
           (\<not> ok \<longrightarrow> (\<exists>sent c. new = map (\<lambda>c. Call (Scpi c)) sent @ [Failed (Scpi c)]))"
  using assms
proof (induction cs arbitrary: tr)
  case Nil
  then show ?case by auto
next
  case (Cons c cs)
  show ?case
  proof (cases "scpi_reply dev tr c")
    case (Ret v)
    with Cons.prems have "scpi_seq dev cs (tr @ [Call (Scpi c)]) = (ok, tr')"
      by (simp add: scpi_def)
    from Cons.IH [OF this] obtain new where new: "tr' = (tr @ [Call (Scpi c)]) @ new"
      "prefix (attempted new) (map Scpi cs)"
      "ok \<longrightarrow> new = map (\<lambda>c. Call (Scpi c)) cs"
      "\<not> ok \<longrightarrow> (\<exists>sent c. new = map (\<lambda>c. Call (Scpi c)) sent @ [Failed (Scpi c)])"
      by blast
    show ?thesis
    proof (intro exI conjI)
      show "tr' = tr @ (Call (Scpi c) # new)" using new(1) by simp
      show "prefix (attempted (Call (Scpi c) # new)) (map Scpi (c # cs))" using new(2) by simp
      show "ok \<longrightarrow> Call (Scpi c) # new = map (\<lambda>c. Call (Scpi c)) (c # cs)" using new(3) by simp
      show "\<not> ok \<longrightarrow> (\<exists>sent c'. Call (Scpi c) # new = map (\<lambda>c. Call (Scpi c)) sent @ [Failed (Scpi c')])"
      proof
        assume "\<not> ok"
        with new(4) obtain sent c' where "new = map (\<lambda>c. Call (Scpi c)) sent @ [Failed (Scpi c')]" by blast
        then have "Call (Scpi c) # new = map (\<lambda>c. Call (Scpi c)) (c # sent) @ [Failed (Scpi c')]" by simp
        then show "\<exists>sent c'. Call (Scpi c) # new = map (\<lambda>c. Call (Scpi c)) sent @ [Failed (Scpi c')]" by blast
      qed
    qed
  next
    case Raise
    with Cons.prems have "ok = False" "tr' = tr @ [Failed (Scpi c)]"
      by (simp_all add: scpi_def)
    then show ?thesis by (intro exI [of _ "[Failed (Scpi c)]"]) auto
  qed
qed

lemmas run_defs = loop_iteration_def ticks_ms_def ticks_add_def ticks_diff_def scpi_def getU_def getI_def setU_def
  dispatch_def updateDisplay_def drive_output_def status_line_def display_failed_def loop_error_def
  startControl_def stopControl_def configVoltageOffset_def configCurrentLimit_def
  count_calls_def ramp_source_def following_def initial_session_def Let_def

lemma quiet_simps [simp]:
  "quiet []" "quiet (Call c # es) = quiet es" "quiet (Print m # es) = quiet es"
  "\<not> quiet (Failed c # es)" "quiet (xs @ ys) = (quiet xs \<and> quiet ys)"
  by (auto simp: quiet_def)

lemma quiet_map_Call [simp]: "quiet (map (\<lambda>c. Call (Scpi c)) cs)"
  by (induction cs) simp_all

lemma raisingI: "quiet q \<Longrightarrow> raising (q @ [Failed c])"
  by (auto simp: raising_def)

lemma raising_Cons [simp]:
  "raising (Call c # es) = raising es" "raising (Print m # es) = raising es"
  "raising [Failed c]"
proof -
  show "raising (Call c # es) = raising es"
  proof
    assume "raising (Call c # es)"
    then obtain q c' where q: "Call c # es = q @ [Failed c']" "quiet q" by (auto simp: raising_def)
    then obtain q' where "q = Call c # q'" by (cases q) auto
    with q show "raising es" by (auto simp: raising_def)
  next
    assume "raising es"
    then obtain q c' where "es = q @ [Failed c']" "quiet q" by (auto simp: raising_def)
    then have "Call c # es = (Call c # q) @ [Failed c']" "quiet (Call c # q)" by simp_all
    then show "raising (Call c # es)" unfolding raising_def by blast
  qed
  show "raising (Print m # es) = raising es"
  proof
    assume "raising (Print m # es)"
    then obtain q c' where q: "Print m # es = q @ [Failed c']" "quiet q" by (auto simp: raising_def)
    then obtain q' where "q = Print m # q'" by (cases q) auto
    with q show "raising es" by (auto simp: raising_def)
  next
    assume "raising es"
    then obtain q c' where "es = q @ [Failed c']" "quiet q" by (auto simp: raising_def)
    then have "Print m # es = (Print m # q) @ [Failed c']" "quiet (Print m # q)" by simp_all
    then show "raising (Print m # es)" unfolding raising_def by blast
  qed
  show "raising [Failed c]" using raisingI [of "[]" c] by simp
qed

lemma raising_append: "quiet xs \<Longrightarrow> raising ys \<Longrightarrow> raising (xs @ ys)"
  by (induction xs rule: attempted.induct) simp_all

lemma handled_after_quiet:
  "quiet xs \<Longrightarrow> errors_handled r (xs @ ys) = errors_handled r ys"
  by (induction xs rule: attempted.induct) simp_all

lemma handled_quiet: "quiet xs \<Longrightarrow> errors_handled r xs"
  using handled_after_quiet [of xs r "[]"] by simp

lemma handled_after_handled_aux:
  "r0 = Continue \<Longrightarrow> errors_handled r0 xs \<Longrightarrow> errors_handled r (xs @ ys) = errors_handled r ys"
proof (induction r0 xs rule: errors_handled.induct)
  case (3 r0 c e es)
  from "3.prems" have e: "e = Print ''Display update ERROR:'' \<or> e = Print ''Offset config ERROR:''"
    and es: "errors_handled r0 es"
    by auto
  have ne: "e \<noteq> Print ''Loop ERROR:''" using e by auto
  have "errors_handled r (Failed c # e # (es @ ys)) = errors_handled r (es @ ys)"
    using e ne by (simp only: errors_handled.simps) blast
  also have "\<dots> = errors_handled r ys"
    using "3.IH" "3.prems"(1) es e by blast
  finally show ?case by simp
qed simp_all

lemma handled_after_handled:
  "errors_handled Continue xs \<Longrightarrow> errors_handled r (xs @ ys) = errors_handled r ys"
  by (rule handled_after_handled_aux [OF refl])

lemma handled_raising:
  assumes "raising xs" and "msg = ''Display update ERROR:'' \<or> msg = ''Offset config ERROR:''"
  shows "errors_handled Continue (xs @ [Print msg])"
proof -
  from assms(1) obtain q c where "xs = q @ [Failed c]" "quiet q" by (auto simp: raising_def)
  then show ?thesis using assms(2) handled_after_quiet [of q Continue "[Failed c, Print msg]"] by auto
qed

lemma handled_loop_error:
  assumes "raising xs \<or> quiet xs"
  shows "errors_handled BreakError (xs @ [Print ''Loop ERROR:''])"
proof -
  from assms consider q c where "xs = q @ [Failed c]" "quiet q" | "quiet xs"
    by (auto simp: raising_def)
  then show ?thesis
  proof cases
    case 1
    then show ?thesis
      using handled_after_quiet [of q BreakError "[Failed c, Print ''Loop ERROR:'']"] by simp
  next
    case 2
    then show ?thesis using handled_quiet [of "xs @ [Print ''Loop ERROR:'']"] by simp
  qed
qed

lemma scpi_seq_events:
  assumes "scpi_seq dev cs tr = (ok, tr')"
  shows "\<exists>new. tr' = tr @ new \<and> (if ok then quiet new else raising new)"
proof -
  from scpi_seq_trace [OF assms] obtain new where new: "tr' = tr @ new"
    "ok \<longrightarrow> new = map (\<lambda>c. Call (Scpi c)) cs"
    "\<not> ok \<longrightarrow> (\<exists>sent c. new = map (\<lambda>c. Call (Scpi c)) sent @ [Failed (Scpi c)])" by blast
  show ?thesis
  proof (cases ok)
    case True
    with new show ?thesis by auto
  next
    case False
    with new(3) obtain sent c where "new = map (\<lambda>c. Call (Scpi c)) sent @ [Failed (Scpi c)]" by blast
    then have "raising new" using raisingI [of "map (\<lambda>c. Call (Scpi c)) sent" "Scpi c"] by simp
    with new(1) False show ?thesis by auto
  qed
qed

subsection \<open>The output target\<close>

lemma drive_output_target:
  assumes "running s" and "drive_output dev s v tr = (st, s', tr')"
  shows "s' = s\<lparr>target_voltage_set := spec_clamp (v + voltage_offset s) 0 fullScale\<rparr>"
  using assms
  by (auto simp: drive_output_def Let_def spec_clamp_def fullScale_def scpi_def setU_def
      split: reply.splits if_splits)

lemma drive_output_idle:
  assumes "\<not> running s"
  shows "drive_output dev s v tr = (Done, s, tr)"
  using assms by (simp add: drive_output_def)

lemma drive_output_commands:
  assumes "running s" and "drive_output dev s v tr = (Done, s', tr')"
  shows "since tr tr' = [Call (Scpi (InstNsel 2)), Call (SetU 2 (spec_clamp (v + voltage_offset s) 0 fullScale))]"
  using assms
  by (auto simp: drive_output_def Let_def spec_clamp_def fullScale_def scpi_def setU_def
      split: reply.splits if_splits)

lemma target_after_clamp:
  "running s \<Longrightarrow> target_after dev s v tr = spec_clamp (v + voltage_offset s) 0 fullScale"
  using drive_output_target [of s dev v tr]
  by (cases "drive_output dev s v tr") (simp add: target_after_def)

lemma ramp_targets:
  "map_option (commanded_targets \<circ> snd) (iterations 3 ramp_source following []) = Some [1.5, 2.5, 3.5]"
  by (simp add: run_defs numeral_3_eq_3)

text \<open>
  Claim C2. While running, the target computed from the source reading \<open>v\<close> and the
  offset of the session is \<open>clamp (v + offset) 0 fullScale\<close> with \<open>fullScale = 40\<close>; it lies
  between 0 and \<open>fullScale\<close>; it does not decrease when the reading or the offset grows,
  and it grows strictly where neither sum is clamped; when the two commands of the step
  return, it is the one target commanded. With the readings 1.0, 2.0, 3.0 and the offset
  0.5, three iterations of the running loop command the targets 1.5, 2.5, 3.5. Voltages
  are real numbers here: the rounding and the NaN of floats are outside the model.
\<close>

theorem target_is_clamped_sum:
  "(running s \<longrightarrow>
      target_after dev s v tr = spec_clamp (v + voltage_offset s) 0 fullScale \<and>
      0 \<le> target_after dev s v tr \<and> target_after dev s v tr \<le> fullScale \<and>
      (v \<le> v' \<longrightarrow> target_after dev s v tr \<le> target_after dev s v' tr) \<and>
      (v < v' \<and> 0 \<le> v + voltage_offset s \<and> v' + voltage_offset s \<le> fullScale
         \<longrightarrow> target_after dev s v tr < target_after dev s v' tr) \<and>
      (b \<le> b' \<longrightarrow> target_after dev (s\<lparr>voltage_offset := b\<rparr>) v tr
                  \<le> target_after dev (s\<lparr>voltage_offset := b'\<rparr>) v tr) \<and>
      (b < b' \<and> 0 \<le> v + b \<and> v + b' \<le> fullScale
         \<longrightarrow> target_after dev (s\<lparr>voltage_offset := b\<rparr>) v tr
             < target_after dev (s\<lparr>voltage_offset := b'\<rparr>) v tr) \<and>
      (\<forall>st s' tr'. drive_output dev s v tr = (st, s', tr') \<and> st = Done
         \<longrightarrow> commanded_targets (since tr tr') = [target_after dev s v tr])) \<and>
   map_option (commanded_targets \<circ> snd) (iterations 3 ramp_source following [])
     = Some [1.5, 2.5, 3.5]"
proof -
  have "commanded_targets (since tr tr') = [target_after dev s v tr]"
    if "running s" "drive_output dev s v tr = (Done, s', tr')" for s' tr'
    using drive_output_commands [OF that] target_after_clamp [OF that(1)] by simp
  then show ?thesis
    using ramp_targets
    by (auto simp: target_after_clamp spec_clamp_def fullScale_def)
qed

theorem target_is_clamped_sum_witness:
  "running following \<and>
   target_after ramp_source following 1 [] = 1.5 \<and>
   target_after ramp_source following 2 [] = 2.5 \<and>
   target_after ramp_source following 39.75 [] = 40 \<and>
   target_after ramp_source following (- 3) [] = 0 \<and>
   target_after ramp_source (following\<lparr>voltage_offset := 1\<rparr>) 1 [] = 2 \<and>
   drive_output ramp_source following 1 [] =
     (Done, following\<lparr>target_voltage_set := 1.5\<rparr>, [Call (Scpi (InstNsel 2)), Call (SetU 2 1.5)]) \<and>
   map_option (commanded_targets \<circ> snd) (iterations 3 ramp_source following [])
     = Some [1.5, 2.5, 3.5]"
proof -
  have r: "running following" by (simp add: following_def)
  have o: "voltage_offset following = 0.5" by (simp add: following_def)
  have d: "drive_output ramp_source following 1 [] =
     (Done, following\<lparr>target_voltage_set := 1.5\<rparr>, [Call (Scpi (InstNsel 2)), Call (SetU 2 1.5)])"
    by (simp add: run_defs)
  show ?thesis
    using r o d
      target_is_clamped_sum [of following ramp_source 1 "[]" 2 "0.5" 1]
      target_is_clamped_sum [of following ramp_source 2 "[]" 2 "0.5" 1]
      target_is_clamped_sum [of following ramp_source "39.75" "[]" 40 "0.5" 1]
      target_is_clamped_sum [of following ramp_source "- 3" "[]" 2 "0.5" 1]
      target_is_clamped_sum [of "following\<lparr>voltage_offset := 1\<rparr>" ramp_source 1 "[]" 2 "0.5" 1]
    by (simp add: spec_clamp_def fullScale_def)
qed

subsection \<open>Configuring the offset\<close>

lemma configVoltageOffset_unfold:
  "configVoltageOffset dev s tr =
     (case getU_reply dev (tr @ [Print ''Config Voltage Offset'']) 1 of
        Raise \<Rightarrow> (s, tr @ [Print ''Config Voltage Offset'', Failed (GetU 1), Print ''Offset config ERROR:''])
      | Ret v \<Rightarrow>
          (case scpi_reply dev (tr @ [Print ''Config Voltage Offset'', Call (GetU 1)]) (offset_prompt s v) of
             Raise \<Rightarrow> (s, tr @ [Print ''Config Voltage Offset'', Call (GetU 1),
                              Failed (Scpi (offset_prompt s v)), Print ''Offset config ERROR:''])
           | Ret val \<Rightarrow>
               (case py_float dev val of
                  None \<Rightarrow> (s, tr @ [Print ''Config Voltage Offset'', Call (GetU 1), Call (Scpi (offset_prompt s v))]
                                @ (if val = PNone then [] else [Print ''Offset config ERROR:'']))
                | Some x \<Rightarrow> (s\<lparr>voltage_offset := x\<rparr>,
                     tr @ [Print ''Config Voltage Offset'', Call (GetU 1), Call (Scpi (offset_prompt s v)),
                           Print ''Offset:'']))))"
  by (auto simp: configVoltageOffset_def offset_prompt_def fullScale_def offset_failed_def getU_def
      scpi_def py_float_def Let_def split: reply.splits option.splits py_val.splits)




subsection \<open>Start and stop\<close>

lemma startControl_session:
  "startControl dev s tr = (st, s', tr') \<Longrightarrow> s' = s\<lparr>running := True\<rparr>"
  by (auto simp: startControl_def Let_def split: prod.splits bool.splits)

lemma stopControl_session:
  "stopControl dev s tr = (st, s', tr') \<Longrightarrow> s' = s\<lparr>running := False\<rparr>"
  by (auto simp: stopControl_def Let_def split: prod.splits bool.splits)

lemma startControl_calls:
  assumes "startControl dev s tr = (st, s', tr')"
  shows "prefix (attempted (since tr tr')) (map Scpi (enable_commands s)) \<and>
         (st = Done \<longrightarrow> attempted (since tr tr') = map Scpi (enable_commands s))"
proof -
  let ?s1 = "s\<lparr>running := True\<rparr>" and ?tr0 = "tr @ [Print ''START button pressed'']"
  obtain ok tr1 where seq: "scpi_seq dev (enable_commands ?s1) ?tr0 = (ok, tr1)"
    by (cases "scpi_seq dev (enable_commands ?s1) ?tr0")
  from scpi_seq_trace [OF seq] obtain new where new: "tr1 = ?tr0 @ new"
    "prefix (attempted new) (map Scpi (enable_commands ?s1))"
    "ok \<longrightarrow> new = map (\<lambda>c. Call (Scpi c)) (enable_commands ?s1)" by blast
  have e: "enable_commands ?s1 = enable_commands s" by (simp add: enable_commands_def)
  have att: "attempted (map (\<lambda>c. Call (Scpi c)) cs) = map Scpi cs" for cs
    by (induction cs) simp_all
  show ?thesis
  proof (cases ok)
    case True
    with assms seq have "st = Done" "tr' = tr1 @ [Print ''Output enabled'']"
      by (simp_all add: startControl_def Let_def)
    with new True e show ?thesis by (simp add: att)
  next
    case False
    with assms seq have "st = Raised" "tr' = tr1"
      by (simp_all add: startControl_def Let_def)
    with new e show ?thesis by simp
  qed
qed


lemma attempted_map_Call: "attempted (map (\<lambda>c. Call (Scpi c)) cs) = map Scpi cs"
  by (induction cs) simp_all

lemma stopControl_calls:
  assumes "stopControl dev s tr = (st, s', tr')"
  shows "prefix (attempted (since tr tr')) (map Scpi disable_commands) \<and>
         (st = Done \<longrightarrow> attempted (since tr tr') = map Scpi disable_commands)"
proof -
  let ?tr0 = "tr @ [Print ''STOP button pressed'']"
  obtain ok tr1 where seq: "scpi_seq dev disable_commands ?tr0 = (ok, tr1)"
    by (cases "scpi_seq dev disable_commands ?tr0")
  from scpi_seq_trace [OF seq] obtain new where new: "tr1 = ?tr0 @ new"
    "prefix (attempted new) (map Scpi disable_commands)"
    "ok \<longrightarrow> new = map (\<lambda>c. Call (Scpi c)) disable_commands" by blast
  show ?thesis
  proof (cases ok)
    case True
    with assms seq have "st = Done" "tr' = tr1 @ [Print ''Output disabled'']"
      by (simp_all add: stopControl_def Let_def)
    with new True show ?thesis by (simp add: attempted_map_Call)
  next
    case False
    with assms seq have "st = Raised" "tr' = tr1"
      by (simp_all add: stopControl_def Let_def)
    with new show ?thesis by simp
  qed
qed

text \<open>
  Claim C9. \<open>startControl\<close> leaves the session with \<open>running\<close> true and nothing else
  changed, whatever the instrument answers; started again it leaves the same session, and
  the calls it attempts are the enable commands, all of them when none raises, and a
  prefix of them otherwise. The same holds for \<open>stopControl\<close>, \<open>running\<close> false and the
  disable commands. A session that is already running is left as it is by start, one
  that is stopped by stop.
\<close>

theorem start_stop_idempotent:
  assumes "startControl dev s tr = (st1, s1, tr1)"
    and "startControl dev s1 tr1 = (st2, s2, tr2)"
    and "stopControl dev u tru = (st3, s3, tr3)"
    and "stopControl dev s3 tr3 = (st4, s4, tr4)"
  shows "s1 = s\<lparr>running := True\<rparr> \<and> s2 = s1 \<and> (running s \<longrightarrow> s1 = s) \<and>
         prefix (attempted (since tr1 tr2)) (map Scpi (enable_commands s)) \<and>
         (st2 = Done \<longrightarrow> attempted (since tr1 tr2) = map Scpi (enable_commands s)) \<and>
         s3 = u\<lparr>running := False\<rparr> \<and> s4 = s3 \<and> (\<not> running u \<longrightarrow> s3 = u) \<and>
         prefix (attempted (since tr3 tr4)) (map Scpi disable_commands) \<and>
         (st4 = Done \<longrightarrow> attempted (since tr3 tr4) = map Scpi disable_commands)"
proof -
  have s1: "s1 = s\<lparr>running := True\<rparr>" by (rule startControl_session [OF assms(1)])
  have s2: "s2 = s1\<lparr>running := True\<rparr>" by (rule startControl_session [OF assms(2)])
  have s3: "s3 = u\<lparr>running := False\<rparr>" by (rule stopControl_session [OF assms(3)])
  have s4: "s4 = s3\<lparr>running := False\<rparr>" by (rule stopControl_session [OF assms(4)])
  have e: "enable_commands s1 = enable_commands s" using s1 by (simp add: enable_commands_def)
  show ?thesis
    using s1 s2 s3 s4 startControl_calls [OF assms(2)] stopControl_calls [OF assms(4)] e
    by simp
qed

theorem start_stop_idempotent_witness:
  "running following \<and>
   (\<exists>tr1 tr2. startControl ramp_source following [] = (Done, following, tr1) \<and>
      startControl ramp_source following tr1 = (Done, following, tr2) \<and>
      attempted (since tr1 tr2) =
        [Scpi (DialData ''status'' (STRING ''RUNNING'')), Scpi (InstNsel 2), Scpi (Curr 0.1),
         Scpi (Outp True)]) \<and>
   \<not> running initial_session \<and>
   (\<exists>tr3 tr4. stopControl ramp_source initial_session [] = (Done, initial_session, tr3) \<and>
      stopControl ramp_source initial_session tr3 = (Done, initial_session, tr4) \<and>
      attempted (since tr3 tr4) =
        [Scpi (DialData ''status'' (STRING ''STOPPED'')), Scpi (InstNsel 2), Scpi (Outp False)])"
proof -
  have r: "running following" "\<not> running initial_session"
    by (simp_all add: following_def initial_session_def)
  obtain tr1 where a: "startControl ramp_source following [] = (Done, following, tr1)"
    by (simp add: run_defs enable_commands_def)
  obtain tr2 where b: "startControl ramp_source following tr1 = (Done, following, tr2)"
    by (simp add: run_defs enable_commands_def)
  obtain tr3 where c: "stopControl ramp_source initial_session [] = (Done, initial_session, tr3)"
    by (simp add: run_defs disable_commands_def)
  obtain tr4 where d: "stopControl ramp_source initial_session tr3 = (Done, initial_session, tr4)"
    by (simp add: run_defs disable_commands_def)
  have "attempted (since tr1 tr2) = map Scpi (enable_commands following) \<and>
        attempted (since tr3 tr4) = map Scpi disable_commands"
    using start_stop_idempotent [OF a b c d] by simp
  then show ?thesis
    using r a b c d
    by (auto simp: enable_commands_def disable_commands_def following_def initial_session_def)
qed

subsection \<open>The events of one iteration\<close>

lemma raising_not_quiet: "raising xs \<Longrightarrow> \<not> quiet xs"
  by (auto simp: raising_def)

lemma startControl_events:
  assumes "startControl dev s tr = (st, s', tr')"
  shows "\<exists>new. tr' = tr @ new \<and> (st = Done \<and> quiet new \<or> st = Raised \<and> raising new)"
proof -
  let ?tr0 = "tr @ [Print ''START button pressed'']"
  obtain ok tr1 where seq: "scpi_seq dev (enable_commands (s\<lparr>running := True\<rparr>)) ?tr0 = (ok, tr1)"
    by (cases "scpi_seq dev (enable_commands (s\<lparr>running := True\<rparr>)) ?tr0")
  from scpi_seq_events [OF seq] obtain new where new: "tr1 = ?tr0 @ new"
    "if ok then quiet new else raising new" by blast
  show ?thesis
  proof (cases ok)
    case True
    with assms seq new have "st = Done" "tr' = tr @ (Print ''START button pressed'' # new @ [Print ''Output enabled''])"
      by (auto simp: startControl_def Let_def)
    moreover have "quiet (Print ''START button pressed'' # new @ [Print ''Output enabled''])"
      using new(2) True by simp
    ultimately show ?thesis by blast
  next
    case False
    with assms seq new have "st = Raised" "tr' = tr @ (Print ''START button pressed'' # new)"
      by (auto simp: startControl_def Let_def)
    moreover have "raising (Print ''START button pressed'' # new)"
      using new(2) False by simp
    ultimately show ?thesis by blast
  qed
qed

lemma stopControl_events:
  assumes "stopControl dev s tr = (st, s', tr')"
  shows "\<exists>new. tr' = tr @ new \<and> (st = Done \<and> quiet new \<or> st = Raised \<and> raising new)"
proof -
  let ?tr0 = "tr @ [Print ''STOP button pressed'']"
  obtain ok tr1 where seq: "scpi_seq dev disable_commands ?tr0 = (ok, tr1)"
    by (cases "scpi_seq dev disable_commands ?tr0")
  from scpi_seq_events [OF seq] obtain new where new: "tr1 = ?tr0 @ new"
    "if ok then quiet new else raising new" by blast
  show ?thesis
  proof (cases ok)
    case True
    with assms seq new have "st = Done" "tr' = tr @ (Print ''STOP button pressed'' # new @ [Print ''Output disabled''])"
      by (auto simp: stopControl_def Let_def)
    moreover have "quiet (Print ''STOP button pressed'' # new @ [Print ''Output disabled''])"
      using new(2) True by simp
    ultimately show ?thesis by blast
  next
    case False
    with assms seq new have "st = Raised" "tr' = tr @ (Print ''STOP button pressed'' # new)"
      by (auto simp: stopControl_def Let_def)
    moreover have "raising (Print ''STOP button pressed'' # new)"
      using new(2) False by simp
    ultimately show ?thesis by blast
  qed
qed

lemma configVoltageOffset_events:
  assumes "configVoltageOffset dev s tr = (s', tr')"
  shows "\<exists>new. tr' = tr @ new \<and> errors_handled Continue new"
  using assms
  by (auto simp: configVoltageOffset_unfold split: reply.splits option.splits)

lemma configCurrentLimit_events:
  assumes "configCurrentLimit dev s tr = (st, s', tr')"
  shows "\<exists>new. tr' = tr @ new \<and>
           (st = Done \<and> quiet new \<or> st = Raised \<and> (raising new \<or> quiet new))"
proof -
  let ?tr0 = "tr @ [Print ''Config Current Limit'']"
  let ?q = "DispInputQ ''Current Limit'' AMPER 0.05 5 (current_limit s)"
  show ?thesis
  proof (cases "scpi_reply dev ?tr0 ?q")
    case Raise
    with assms have "st = Raised" "tr' = tr @ [Print ''Config Current Limit'', Failed (Scpi ?q)]"
      by (auto simp: configCurrentLimit_def scpi_def)
    moreover have "raising [Print ''Config Current Limit'', Failed (Scpi ?q)]" by simp
    ultimately show ?thesis by blast
  next
    case (Ret val)
    let ?tr1 = "tr @ [Print ''Config Current Limit'', Call (Scpi ?q)]"
    have q1: "quiet [Print ''Config Current Limit'', Call (Scpi ?q)]" by simp
    show ?thesis
    proof (cases "val = PNone")
      case True
      with assms Ret have "st = Done" "tr' = ?tr1"
        by (auto simp: configCurrentLimit_def scpi_def)
      with q1 show ?thesis by blast
    next
      case False
      show ?thesis
      proof (cases "py_float dev val")
        case None
        with assms Ret False have "st = Raised" "tr' = ?tr1"
          by (auto simp: configCurrentLimit_def scpi_def)
        with q1 show ?thesis by blast
      next
        case (Some x)
        obtain ok tr2 where seq: "scpi_seq dev [InstNsel 2, Curr x] ?tr1 = (ok, tr2)"
          by (cases "scpi_seq dev [InstNsel 2, Curr x] ?tr1")
        from scpi_seq_events [OF seq] obtain new where new: "tr2 = ?tr1 @ new"
          "if ok then quiet new else raising new" by blast
        show ?thesis
        proof (cases ok)
          case True
          with assms Ret False Some seq new
          have "st = Done"
            "tr' = tr @ (Print ''Config Current Limit'' # Call (Scpi ?q) # new @ [Print ''Current limit set to:''])"
            by (auto simp: configCurrentLimit_def scpi_def Let_def simp del: scpi_seq.simps)
          moreover have "quiet (Print ''Config Current Limit'' # Call (Scpi ?q) # new @ [Print ''Current limit set to:''])"
            using new(2) True by simp
          ultimately show ?thesis by blast
        next
          case f: False
          with assms Ret False Some seq new
          have "st = Raised" "tr' = tr @ (Print ''Config Current Limit'' # Call (Scpi ?q) # new)"
            by (auto simp: configCurrentLimit_def scpi_def Let_def simp del: scpi_seq.simps)
          moreover have "raising (Print ''Config Current Limit'' # Call (Scpi ?q) # new)"
            using new(2) f by simp
          ultimately show ?thesis by blast
        qed
      qed
    qed
  qed
qed

lemma drive_output_events:
  assumes "drive_output dev s v tr = (st, s', tr')"
  shows "\<exists>new. tr' = tr @ new \<and> (st = Done \<and> quiet new \<or> st = Raised \<and> raising new)"
proof (cases "running s")
  case False
  with assms have "st = Done" "tr' = tr @ []" by (simp_all add: drive_output_def)
  then show ?thesis by (intro exI [of _ "[]"]) simp
next
  case True
  let ?x = "spec_clamp (v + voltage_offset s) 0 fullScale"
  have tgt: "(if v + voltage_offset s < 0 then 0 else if v + voltage_offset s > 40 then 40
              else v + voltage_offset s) = ?x"
    by (simp add: spec_clamp_def fullScale_def)
  show ?thesis
  proof (cases "scpi_reply dev tr (InstNsel 2)")
    case Raise
    with assms True have "st = Raised" "tr' = tr @ [Failed (Scpi (InstNsel 2))]"
      by (auto simp: drive_output_def scpi_def Let_def)
    moreover have "raising [Failed (Scpi (InstNsel 2))]" by simp
    ultimately show ?thesis by blast
  next
    case (Ret r1)
    show ?thesis
    proof (cases "setU_reply dev (tr @ [Call (Scpi (InstNsel 2))]) 2 ?x")
      case Raise
      with assms True Ret have "st = Raised"
        "tr' = tr @ [Call (Scpi (InstNsel 2)), Failed (SetU 2 ?x)]"
        by (auto simp: drive_output_def scpi_def setU_def Let_def tgt)
      moreover have "raising [Call (Scpi (InstNsel 2)), Failed (SetU 2 ?x)]" by simp
      ultimately show ?thesis by blast
    next
      case r2: (Ret u)
      with assms True Ret have "st = Done"
        "tr' = tr @ [Call (Scpi (InstNsel 2)), Call (SetU 2 ?x)]"
        by (auto simp: drive_output_def scpi_def setU_def Let_def tgt)
      moreover have "quiet [Call (Scpi (InstNsel 2)), Call (SetU 2 ?x)]" by simp
      ultimately show ?thesis by blast
    qed
  qed
qed

lemma updateDisplay_events:
  assumes "updateDisplay dev s tr = (vals, tr')"
  shows "\<exists>new. tr' = tr @ new \<and> errors_handled Continue new"
  using assms
  by (auto simp: updateDisplay_def display_failed_def scpi_def getU_def getI_def
      split: reply.splits)

lemma status_line_events:
  assumes "status_line s tr = (s', tr')"
  shows "\<exists>new. tr' = tr @ new \<and> quiet new"
  using assms by (auto simp: status_line_def split: if_splits)

lemma dispatch_events:
  assumes "dispatch dev action s tr = (st, s', tr')"
  shows "\<exists>new. tr' = tr @ new \<and>
           (st = Done \<and> errors_handled Continue new \<or> st = Closing \<and> quiet new \<or>
            st = Raised \<and> (raising new \<or> quiet new))"
proof -
  consider (start) "action = PStr ''start_control''"
    | (stop) "action = PStr ''stop_control''"
    | (offset) "action = PStr ''config_voltage_offset''"
    | (limit) "action = PStr ''config_current_limit''"
    | (close) "action = PStr ''close_dialog''"
    | (none) "action \<noteq> PStr ''start_control''" "action \<noteq> PStr ''stop_control''"
        "action \<noteq> PStr ''config_voltage_offset''" "action \<noteq> PStr ''config_current_limit''"
        "action \<noteq> PStr ''close_dialog''"
    by blast
  then show ?thesis
  proof cases
    case start
    with assms have "startControl dev s tr = (st, s', tr')" by (simp add: dispatch_def)
    from startControl_events [OF this] show ?thesis using handled_quiet by blast
  next
    case stop
    with assms have "stopControl dev s tr = (st, s', tr')" by (simp add: dispatch_def)
    from stopControl_events [OF this] show ?thesis using handled_quiet by blast
  next
    case offset
    with assms have "configVoltageOffset dev s tr = (s', tr')" "st = Done"
      by (auto simp: dispatch_def split: prod.splits)
    from configVoltageOffset_events [OF this(1)] this(2) show ?thesis by blast
  next
    case limit
    with assms have "configCurrentLimit dev s tr = (st, s', tr')" by (simp add: dispatch_def)
    from configCurrentLimit_events [OF this] show ?thesis using handled_quiet by blast
  next
    case close
    with assms have "st = Closing" "tr' = tr @ [Print ''Close requested by user'']"
      by (auto simp: dispatch_def)
    moreover have "quiet [Print ''Close requested by user'']" by simp
    ultimately show ?thesis by blast
  next
    case none
    with assms have "st = Done" "tr' = tr @ []" by (auto simp: dispatch_def)
    then show ?thesis by (intro exI [of _ "[]"]) simp
  qed
qed

lemma loop_iteration_events:
  assumes it: "loop_iteration dev s tr = (r, s', tr')"
    and poll: "poll = Scpi (DialActionQ (max 10 (ticks_diff dev (ticks_add dev (t_last s) 500)
                 (ticks_now dev tr mod ticks_period dev))))"
  shows "\<exists>e rest. tr' = tr @ Call TicksMs # e # rest \<and> (e = Call poll \<or> e = Failed poll) \<and>
           errors_handled r (e # rest) \<and>
           (r = Continue \<longrightarrow> t_last s' = ticks_add dev (t_last s) 500)"
proof -
  let ?q = "DialActionQ (max 10 (ticks_diff dev (ticks_add dev (t_last s) 500)
              (ticks_now dev tr mod ticks_period dev)))"
  let ?tr0 = "tr @ [Call TicksMs]"
  show ?thesis
  proof (cases "scpi_reply dev ?tr0 ?q")
    case Raise
    with it have "r = BreakError" "tr' = tr @ Call TicksMs # Failed (Scpi ?q) # [Print ''Loop ERROR:'']"
      by (auto simp: loop_iteration_def ticks_ms_def scpi_def loop_error_def Let_def)
    then show ?thesis using poll by simp
  next
    case (Ret action)
    let ?tr1 = "tr @ [Call TicksMs, Call (Scpi ?q)]"
    obtain st s2 tr2 where d: "dispatch dev action s ?tr1 = (st, s2, tr2)"
      by (cases "dispatch dev action s ?tr1")
    from dispatch_events [OF d] obtain dnew where dnew: "tr2 = ?tr1 @ dnew"
      "st = Done \<and> errors_handled Continue dnew \<or> st = Closing \<and> quiet dnew \<or>
       st = Raised \<and> (raising dnew \<or> quiet dnew)" by blast
    have step: "loop_iteration dev s tr =
      (case (st, s2, tr2) of
         (Raised, s2, tr2) \<Rightarrow> loop_error s2 tr2
       | (Closing, s2, tr2) \<Rightarrow> (BreakClose, s2, tr2)
       | (Done, s2, tr2) \<Rightarrow>
           (case updateDisplay dev s2 tr2 of ((ch1_v, ch2_v, ch2_i), tr3) \<Rightarrow>
            (case drive_output dev s2 ch1_v tr3 of
               (Done, s4, tr4) \<Rightarrow>
                 (case status_line s4 tr4 of (s5, tr5) \<Rightarrow>
                    (Continue, s5\<lparr>t_last := ticks_add dev (t_last s) 500\<rparr>, tr5))
             | (st, s4, tr4) \<Rightarrow> loop_error s4 tr4)))"
      using Ret d by (simp add: loop_iteration_def ticks_ms_def scpi_def Let_def)
    show ?thesis
    proof (cases st)
      case Raised
      with step it have "r = BreakError" "tr' = tr @ Call TicksMs # Call (Scpi ?q) # (dnew @ [Print ''Loop ERROR:''])"
        using dnew(1) by (auto simp: loop_error_def)
      moreover have "errors_handled BreakError (dnew @ [Print ''Loop ERROR:''])"
        using dnew(2) Raised by (intro handled_loop_error) auto
      ultimately show ?thesis using poll by simp
    next
      case Closing
      with step it have "r = BreakClose" "tr' = tr @ Call TicksMs # Call (Scpi ?q) # dnew"
        using dnew(1) by auto
      moreover have "errors_handled BreakClose dnew"
        using dnew(2) Closing by (intro handled_quiet) auto
      ultimately show ?thesis using poll by simp
    next
      case Done
      with dnew(2) have hd: "errors_handled Continue dnew" by auto
      obtain ch1_v ch2_v ch2_i tr3 where u: "updateDisplay dev s2 tr2 = ((ch1_v, ch2_v, ch2_i), tr3)"
        by (cases "updateDisplay dev s2 tr2") auto
      from updateDisplay_events [OF u] obtain unew where unew: "tr3 = tr2 @ unew"
        "errors_handled Continue unew" by blast
      obtain st4 s4 tr4 where o: "drive_output dev s2 ch1_v tr3 = (st4, s4, tr4)"
        by (cases "drive_output dev s2 ch1_v tr3")
      from drive_output_events [OF o] obtain onew where onew: "tr4 = tr3 @ onew"
        "st4 = Done \<and> quiet onew \<or> st4 = Raised \<and> raising onew" by blast
      have pre: "errors_handled x (dnew @ unew @ ys) = errors_handled x ys" for x ys
        using handled_after_handled [OF hd, of x "unew @ ys"] handled_after_handled [OF unew(2), of x ys]
        by simp
      show ?thesis
      proof (cases "st4 = Done")
        case True
        obtain s5 tr5 where l: "status_line s4 tr4 = (s5, tr5)" by (cases "status_line s4 tr4")
        from status_line_events [OF l] obtain lnew where lnew: "tr5 = tr4 @ lnew" "quiet lnew" by blast
        from step it Done u o True l
        have res: "r = Continue" "s' = s5\<lparr>t_last := ticks_add dev (t_last s) 500\<rparr>" "tr' = tr5"
          by auto
        have "tr' = tr @ Call TicksMs # Call (Scpi ?q) # (dnew @ unew @ onew @ lnew)"
          using res(3) lnew(1) onew(1) unew(1) dnew(1) by simp
        moreover have "errors_handled Continue (dnew @ unew @ onew @ lnew)"
          using pre [of Continue "onew @ lnew"] onew(2) True lnew(2)
            handled_quiet [of "onew @ lnew" Continue] by simp
        ultimately show ?thesis using poll res by simp
      next
        case False
        with onew(2) have r4: "st4 = Raised" "raising onew" by auto
        from step it Done u o r4(1)
        have res: "r = BreakError" "tr' = tr4 @ [Print ''Loop ERROR:'']"
          by (auto simp: loop_error_def)
        have "tr' = tr @ Call TicksMs # Call (Scpi ?q) # (dnew @ unew @ onew @ [Print ''Loop ERROR:''])"
          using res(2) onew(1) unew(1) dnew(1) by simp
        moreover have "errors_handled BreakError (dnew @ unew @ onew @ [Print ''Loop ERROR:''])"
          using pre [of BreakError "onew @ [Print ''Loop ERROR:'']"] handled_loop_error [of onew] r4(2)
          by simp
        ultimately show ?thesis using poll res by simp
      qed
    qed
  qed
qed

subsection \<open>Timing\<close>

lemma ticks_diff_add:
  assumes "1000 < ticks_period dev"
  shows "ticks_diff dev (ticks_add dev t0 500) t0 = 500"
proof -
  let ?P = "ticks_period dev"
  have "((t0 + 500) mod ?P - t0 + ?P div 2) mod ?P = ((t0 + 500) mod ?P + (?P div 2 - t0)) mod ?P"
    by (simp add: algebra_simps)
  also have "\<dots> = (t0 + 500 + (?P div 2 - t0)) mod ?P"
    by (rule mod_add_left_eq)
  also have "\<dots> = (500 + ?P div 2) mod ?P" by (simp add: algebra_simps)
  also have "\<dots> = 500 + ?P div 2"
    using assms by (intro mod_pos_pos_trivial) auto
  finally show ?thesis by (simp add: ticks_diff_def ticks_add_def)
qed

lemma iterations_deadline:
  assumes "iterations k dev s tr = Some (sk, trk)" and "0 < k"
  shows "t_last sk = ticks_add dev (t_last s) (500 * int k)"
  using assms
proof (induction k arbitrary: s tr)
  case 0
  then show ?case by simp
next
  case (Suc k)
  obtain r s1 tr1 where it: "loop_iteration dev s tr = (r, s1, tr1)"
    by (cases "loop_iteration dev s tr")
  with Suc.prems(1) have r: "r = Continue" and rest: "iterations k dev s1 tr1 = Some (sk, trk)"
    by (auto split: loop_result.splits)
  from loop_iteration_events [OF it refl] r
  have t1: "t_last s1 = ticks_add dev (t_last s) 500" by blast
  show ?case
  proof (cases k)
    case 0
    with rest t1 show ?thesis by simp
  next
    case (Suc j)
    with Suc.IH [OF rest] have "t_last sk = ticks_add dev (t_last s1) (500 * int k)" by simp
    also have "\<dots> = ((t_last s + 500) mod ticks_period dev + 500 * int k) mod ticks_period dev"
      by (simp add: t1 ticks_add_def)
    also have "\<dots> = (t_last s + 500 + 500 * int k) mod ticks_period dev"
      by (rule mod_add_left_eq)
    finally show ?thesis by (simp add: ticks_add_def algebra_simps)
  qed
qed

lemma loop_iteration_first_calls:
  assumes "loop_iteration dev s tr = (r, s', tr')"
  shows "take 2 (attempted (since tr tr')) =
           [TicksMs, Scpi (DialActionQ (max 10 (ticks_diff dev (ticks_add dev (t_last s) 500)
              (fst (ticks_ms dev tr)))))]"
proof -
  from loop_iteration_events [OF assms refl] obtain e rest where
    "tr' = tr @ Call TicksMs # e # rest"
    "e = Call (Scpi (DialActionQ (max 10 (ticks_diff dev (ticks_add dev (t_last s) 500)
              (ticks_now dev tr mod ticks_period dev))))) \<or>
     e = Failed (Scpi (DialActionQ (max 10 (ticks_diff dev (ticks_add dev (t_last s) 500)
              (ticks_now dev tr mod ticks_period dev)))))"
    by blast
  then show ?thesis by (auto simp: ticks_ms_def)
qed

lemma ramp_source_continues:
  "\<exists>s1 tr1. loop_iteration ramp_source s tr = (Continue, s1, tr1)"
  by (simp add: run_defs)

lemma ramp_source_iterations:
  "\<exists>sk trk. iterations k ramp_source s tr = Some (sk, trk)"
proof (induction k arbitrary: s tr)
  case 0
  then show ?case by simp
next
  case (Suc k)
  from ramp_source_continues obtain s1 tr1 where "loop_iteration ramp_source s tr = (Continue, s1, tr1)"
    by blast
  with Suc.IH [of s1 tr1] show ?case by simp
qed

text \<open>
  Claim C7. With the period of 500 ms, an iteration reads the clock and then polls for an
  action with the timeout \<open>max 10 (deadline - now)\<close>, where the deadline is the deadline of
  the iteration before plus 500 and the difference is that of \<open>ticks_diff\<close>. An iteration
  that goes on leaves that deadline in \<open>t\<close>: it is the old one plus 500 in the arithmetic
  of the tick counter, at a \<open>ticks_diff\<close> of exactly 500 from it. After \<open>k\<close> iterations
  the deadline is the first one plus \<open>500 * k\<close>, whatever time the handlers took, and
  literally so as long as the counter has not wrapped around.
\<close>

theorem wake_deadlines_advance_by_period:
  "(loop_iteration dev s tr = (r, s', tr') \<longrightarrow>
      take 2 (attempted (since tr tr')) =
        [TicksMs, Scpi (DialActionQ (max 10 (ticks_diff dev (ticks_add dev (t_last s) 500)
           (fst (ticks_ms dev tr)))))] \<and>
      (r = Continue \<longrightarrow>
         t_last s' = ticks_add dev (t_last s) 500 \<and>
         (1000 < ticks_period dev \<longrightarrow> ticks_diff dev (t_last s') (t_last s) = 500))) \<and>
   (iterations k dev s tr = Some (sk, trk) \<and> 0 < k \<longrightarrow>
      t_last sk = ticks_add dev (t_last s) (500 * int k) \<and>
      (0 \<le> t_last s \<and> t_last s + 500 * int k < ticks_period dev \<longrightarrow>
         t_last sk = t_last s + 500 * int k))"
proof -
  have a: "take 2 (attempted (since tr tr')) =
        [TicksMs, Scpi (DialActionQ (max 10 (ticks_diff dev (ticks_add dev (t_last s) 500)
           (fst (ticks_ms dev tr)))))]" if "loop_iteration dev s tr = (r, s', tr')"
    using loop_iteration_first_calls [OF that] .
  have b: "t_last s' = ticks_add dev (t_last s) 500"
    if "loop_iteration dev s tr = (r, s', tr')" "r = Continue"
    using loop_iteration_events [OF that(1) refl] that(2) by blast
  have c: "t_last sk = ticks_add dev (t_last s) (500 * int k)"
    if "iterations k dev s tr = Some (sk, trk)" "0 < k"
    using iterations_deadline [OF that] .
  have d: "ticks_add dev (t_last s) (500 * int k) = t_last s + 500 * int k"
    if "0 \<le> t_last s" "t_last s + 500 * int k < ticks_period dev"
    using that by (simp add: ticks_add_def)
  show ?thesis
    using a b c d ticks_diff_add [of dev "t_last s"] by (simp (no_asm_simp))
qed

theorem wake_deadlines_advance_by_period_witness:
  "(\<exists>s1 tr1. loop_iteration ramp_source following [] = (Continue, s1, tr1) \<and>
      take 2 (attempted tr1) = [TicksMs, Scpi (DialActionQ 500)] \<and> t_last s1 = 500 \<and>
      ticks_diff ramp_source (t_last s1) (t_last following) = 500) \<and>
   (\<exists>s100 tr100. iterations 100 ramp_source following [] = Some (s100, tr100) \<and>
      t_last s100 = 50000) \<and>
   take 2 (attempted (since [] (snd (snd (loop_iteration (ramp_source\<lparr>ticks_now := (\<lambda>tr. 495)\<rparr>) following [])))))
     = [TicksMs, Scpi (DialActionQ 10)]"
proof -
  obtain s1 tr1 where a: "loop_iteration ramp_source following [] = (Continue, s1, tr1)"
    using ramp_source_continues by blast
  obtain s100 tr100 where b: "iterations 100 ramp_source following [] = Some (s100, tr100)"
    using ramp_source_iterations by blast
  obtain r2 s2 tr2 where c: "loop_iteration (ramp_source\<lparr>ticks_now := (\<lambda>tr. 495)\<rparr>) following [] = (r2, s2, tr2)"
    by (cases "loop_iteration (ramp_source\<lparr>ticks_now := (\<lambda>tr. 495)\<rparr>) following []")
  have p: "ticks_period ramp_source = 2 ^ 30" "t_last following = 0"
    "ticks_now ramp_source [] = 0"
    by (simp_all add: ramp_source_def following_def initial_session_def count_calls_def)
  have "take 2 (attempted tr1) = [TicksMs, Scpi (DialActionQ 500)] \<and> t_last s1 = 500 \<and>
      ticks_diff ramp_source (t_last s1) (t_last following) = 500"
    using wake_deadlines_advance_by_period [of ramp_source following "[]" Continue s1 tr1 0 s1 tr1] a p
    by (simp add: ticks_ms_def ticks_add_def ticks_diff_def since_def)
  moreover have "t_last s100 = 50000"
    using wake_deadlines_advance_by_period [of ramp_source following "[]" Continue s1 tr1 100 s100 tr100] b p
    by simp
  moreover have "take 2 (attempted (since [] tr2)) = [TicksMs, Scpi (DialActionQ 10)]"
    using wake_deadlines_advance_by_period
      [of "ramp_source\<lparr>ticks_now := (\<lambda>tr. 495)\<rparr>" following "[]" r2 s2 tr2 0 s2 tr2] c p
    by (simp add: ticks_ms_def ticks_add_def ticks_diff_def ramp_source_def)
  ultimately show ?thesis using a b c by auto
qed

subsection \<open>Errors in the loop\<close>

lemma main_loop_leaves:
  "main_loop n dev s tr = Some (r, s', tr') \<Longrightarrow> r \<noteq> Continue"
proof (induction n arbitrary: s tr)
  case 0
  then show ?case by simp
next
  case (Suc n)
  obtain r1 s1 tr1 where it: "loop_iteration dev s tr = (r1, s1, tr1)"
    by (cases "loop_iteration dev s tr")
  show ?case
  proof (cases "r1 = Continue")
    case True
    with Suc.prems it have "main_loop n dev s1 tr1 = Some (r, s', tr')" by simp
    then show ?thesis by (rule Suc.IH)
  next
    case False
    with Suc.prems it have "r = r1" by (cases r1) auto
    with False show ?thesis by simp
  qed
qed

lemma routed_append_aux:
  "r0 = Continue \<Longrightarrow> errors_routed r0 prev xs \<Longrightarrow>
   errors_routed r prev (xs @ ys) = errors_routed r (if xs = [] then prev else Some (last xs)) ys"
proof (induction r0 prev xs rule: errors_routed.induct)
  case (3 r0 prev c e es)
  from "3.prems" have e: "e = handler_line (caught_by prev c)"
    and nl: "caught_by prev c \<noteq> ByLoop" and es: "errors_routed r0 (Some e) es"
    by (auto split: if_splits)
  have "errors_routed r prev (Failed c # e # (es @ ys)) = errors_routed r (Some e) (es @ ys)"
    using e nl by (simp only: errors_routed.simps) simp
  also have "\<dots> = errors_routed r (if es = [] then Some e else Some (last es)) ys"
    using "3.IH" [OF nl "3.prems"(1) es] .
  finally show ?case by simp
qed simp_all

lemma routed_append:
  "errors_routed Continue prev xs \<Longrightarrow>
   errors_routed r prev (xs @ ys) = errors_routed r (if xs = [] then prev else Some (last xs)) ys"
  by (rule routed_append_aux [OF refl])

lemma routed_quiet: "quiet xs \<Longrightarrow> errors_routed r prev xs"
  by (induction r prev xs rule: errors_routed.induct) simp_all

lemma updateDisplay_routed:
  assumes "updateDisplay dev s tr = (vals, tr')"
  shows "\<exists>new. tr' = tr @ new \<and> errors_routed Continue prev new \<and> new \<noteq> [] \<and>
           last new \<noteq> Call (GetI 1)"
  using assms
  by (auto simp: updateDisplay_def display_failed_def scpi_def getU_def getI_def
      split: reply.splits)

lemma configVoltageOffset_routed:
  assumes "configVoltageOffset dev s tr = (s', tr')"
  shows "\<exists>new. tr' = tr @ new \<and> errors_routed Continue prev new \<and> new \<noteq> [] \<and>
           last new \<noteq> Call (GetI 1)"
  using assms
  by (auto simp: configVoltageOffset_unfold offset_prompt_def split: reply.splits option.splits)

lemma startControl_routed:
  assumes "startControl dev s tr = (st, s', tr')"
  shows "\<exists>new. tr' = tr @ new \<and> new \<noteq> [] \<and> last new \<noteq> Call (GetI 1) \<and>
           (st = Done \<and> quiet new \<or>
            st = Raised \<and> errors_routed BreakError prev (new @ [Print ''Loop ERROR:'']))"
  using assms
  by (auto simp: startControl_def enable_commands_def scpi_def Let_def split: reply.splits)

lemma stopControl_routed:
  assumes "stopControl dev s tr = (st, s', tr')"
  shows "\<exists>new. tr' = tr @ new \<and> new \<noteq> [] \<and> last new \<noteq> Call (GetI 1) \<and>
           (st = Done \<and> quiet new \<or>
            st = Raised \<and> errors_routed BreakError prev (new @ [Print ''Loop ERROR:'']))"
  using assms
  by (auto simp: stopControl_def disable_commands_def scpi_def Let_def split: reply.splits)

lemma configCurrentLimit_routed:
  assumes "configCurrentLimit dev s tr = (st, s', tr')"
  shows "\<exists>new. tr' = tr @ new \<and> new \<noteq> [] \<and> last new \<noteq> Call (GetI 1) \<and>
           (st = Done \<and> quiet new \<or>
            st = Raised \<and> errors_routed BreakError prev (new @ [Print ''Loop ERROR:'']))"
  using assms
  by (auto simp: configCurrentLimit_def scpi_def Let_def split: reply.splits option.splits if_splits)

lemma drive_output_routed:
  assumes "drive_output dev s v tr = (st, s', tr')" and "prev \<noteq> Some (Call (GetI 1))"
  shows "\<exists>new. tr' = tr @ new \<and>
           (st = Done \<and> quiet new \<or>
            st = Raised \<and> errors_routed BreakError prev (new @ [Print ''Loop ERROR:'']))"
  using assms
  by (auto simp: drive_output_def scpi_def setU_def Let_def split: reply.splits if_splits)

lemma dispatch_routed:
  assumes "dispatch dev action s tr = (st, s', tr')"
  shows "\<exists>new. tr' = tr @ new \<and> (new = [] \<or> last new \<noteq> Call (GetI 1)) \<and>
           (st = Done \<and> errors_routed Continue prev new \<or> st = Closing \<and> quiet new \<or>
            st = Raised \<and> errors_routed BreakError prev (new @ [Print ''Loop ERROR:'']))"
proof -
  consider (start) "action = PStr ''start_control''"
    | (stop) "action = PStr ''stop_control''"
    | (offset) "action = PStr ''config_voltage_offset''"
    | (limit) "action = PStr ''config_current_limit''"
    | (close) "action = PStr ''close_dialog''"
    | (none) "action \<noteq> PStr ''start_control''" "action \<noteq> PStr ''stop_control''"
        "action \<noteq> PStr ''config_voltage_offset''" "action \<noteq> PStr ''config_current_limit''"
        "action \<noteq> PStr ''close_dialog''"
    by blast
  then show ?thesis
  proof cases
    case start
    with assms have "startControl dev s tr = (st, s', tr')" by (simp add: dispatch_def)
    from startControl_routed [OF this, of prev] show ?thesis using routed_quiet by blast
  next
    case stop
    with assms have "stopControl dev s tr = (st, s', tr')" by (simp add: dispatch_def)
    from stopControl_routed [OF this, of prev] show ?thesis using routed_quiet by blast
  next
    case offset
    with assms have "configVoltageOffset dev s tr = (s', tr')" "st = Done"
      by (auto simp: dispatch_def split: prod.splits)
    from configVoltageOffset_routed [OF this(1), of prev] this(2) show ?thesis by blast
  next
    case limit
    with assms have "configCurrentLimit dev s tr = (st, s', tr')" by (simp add: dispatch_def)
    from configCurrentLimit_routed [OF this, of prev] show ?thesis using routed_quiet by blast
  next
    case close
    with assms have "st = Closing" "tr' = tr @ [Print ''Close requested by user'']"
      by (auto simp: dispatch_def)
    moreover have "quiet [Print ''Close requested by user'']"
      "last [Print ''Close requested by user''] \<noteq> Call (GetI 1)" by simp_all
    ultimately show ?thesis by blast
  next
    case none
    with assms have "st = Done" "tr' = tr @ []" by (auto simp: dispatch_def)
    then show ?thesis by (intro exI [of _ "[]"]) simp
  qed
qed

lemma loop_iteration_routed:
  assumes it: "loop_iteration dev s tr = (r, s', tr')"
  shows "errors_routed r None (since tr tr')"
proof -
  let ?q = "DialActionQ (max 10 (ticks_diff dev (ticks_add dev (t_last s) 500)
              (ticks_now dev tr mod ticks_period dev)))"
  let ?tr0 = "tr @ [Call TicksMs]"
  show ?thesis
  proof (cases "scpi_reply dev ?tr0 ?q")
    case Raise
    with it have "r = BreakError" "tr' = tr @ Call TicksMs # Failed (Scpi ?q) # [Print ''Loop ERROR:'']"
      by (auto simp: loop_iteration_def ticks_ms_def scpi_def loop_error_def Let_def)
    then show ?thesis by simp
  next
    case (Ret action)
    let ?tr1 = "tr @ [Call TicksMs, Call (Scpi ?q)]"
    let ?p = "Some (Call (Scpi ?q))"
    obtain st s2 tr2 where d: "dispatch dev action s ?tr1 = (st, s2, tr2)"
      by (cases "dispatch dev action s ?tr1")
    from dispatch_routed [OF d, of ?p] obtain dnew where dnew: "tr2 = ?tr1 @ dnew"
      "dnew = [] \<or> last dnew \<noteq> Call (GetI 1)"
      "st = Done \<and> errors_routed Continue ?p dnew \<or> st = Closing \<and> quiet dnew \<or>
       st = Raised \<and> errors_routed BreakError ?p (dnew @ [Print ''Loop ERROR:''])" by blast
    have step: "loop_iteration dev s tr =
      (case (st, s2, tr2) of
         (Raised, s2, tr2) \<Rightarrow> loop_error s2 tr2
       | (Closing, s2, tr2) \<Rightarrow> (BreakClose, s2, tr2)
       | (Done, s2, tr2) \<Rightarrow>
           (case updateDisplay dev s2 tr2 of ((ch1_v, ch2_v, ch2_i), tr3) \<Rightarrow>
            (case drive_output dev s2 ch1_v tr3 of
               (Done, s4, tr4) \<Rightarrow>
                 (case status_line s4 tr4 of (s5, tr5) \<Rightarrow>
                    (Continue, s5\<lparr>t_last := ticks_add dev (t_last s) 500\<rparr>, tr5))
             | (st, s4, tr4) \<Rightarrow> loop_error s4 tr4)))"
      using Ret d by (simp add: loop_iteration_def ticks_ms_def scpi_def Let_def)
    show ?thesis
    proof (cases st)
      case Raised
      with step it have "r = BreakError" "tr' = tr @ Call TicksMs # Call (Scpi ?q) # (dnew @ [Print ''Loop ERROR:''])"
        using dnew(1) by (auto simp: loop_error_def)
      then show ?thesis using dnew(3) Raised by simp
    next
      case Closing
      with step it have "r = BreakClose" "tr' = tr @ Call TicksMs # Call (Scpi ?q) # dnew"
        using dnew(1) by auto
      moreover have "errors_routed BreakClose ?p dnew"
        using dnew(3) Closing by (intro routed_quiet) auto
      ultimately show ?thesis by simp
    next
      case Done
      with dnew(3) have hd: "errors_routed Continue ?p dnew" by auto
      let ?p1 = "if dnew = [] then ?p else Some (last dnew)"
      obtain ch1_v ch2_v ch2_i tr3 where u: "updateDisplay dev s2 tr2 = ((ch1_v, ch2_v, ch2_i), tr3)"
        by (cases "updateDisplay dev s2 tr2") auto
      from updateDisplay_routed [OF u, of ?p1] obtain unew where unew: "tr3 = tr2 @ unew"
        "errors_routed Continue ?p1 unew" "unew \<noteq> []" "last unew \<noteq> Call (GetI 1)" by blast
      let ?p2 = "Some (last unew)"
      obtain st4 s4 tr4 where o: "drive_output dev s2 ch1_v tr3 = (st4, s4, tr4)"
        by (cases "drive_output dev s2 ch1_v tr3")
      have p2: "?p2 \<noteq> Some (Call (GetI 1))" using unew(4) by simp
      from drive_output_routed [OF o p2] obtain onew where onew: "tr4 = tr3 @ onew"
        "st4 = Done \<and> quiet onew \<or>
         st4 = Raised \<and> errors_routed BreakError ?p2 (onew @ [Print ''Loop ERROR:''])" by blast
      have pre: "errors_routed x ?p (dnew @ unew @ ys) = errors_routed x ?p2 ys" for x ys
        using routed_append [OF hd, of x "unew @ ys"] routed_append [OF unew(2), of x ys] unew(3)
        by simp
      show ?thesis
      proof (cases "st4 = Done")
        case True
        obtain s5 tr5 where l: "status_line s4 tr4 = (s5, tr5)" by (cases "status_line s4 tr4")
        from status_line_events [OF l] obtain lnew where lnew: "tr5 = tr4 @ lnew" "quiet lnew" by blast
        from step it Done u o True l
        have res: "r = Continue" "tr' = tr5" by auto
        have "tr' = tr @ Call TicksMs # Call (Scpi ?q) # (dnew @ unew @ onew @ lnew)"
          using res(2) lnew(1) onew(1) unew(1) dnew(1) by simp
        moreover have "errors_routed Continue ?p (dnew @ unew @ onew @ lnew)"
          using pre [of Continue "onew @ lnew"] onew(2) True lnew(2)
            routed_quiet [of "onew @ lnew" Continue ?p2] by simp
        ultimately show ?thesis using res by simp
      next
        case False
        with onew(2) have r4: "st4 = Raised"
          "errors_routed BreakError ?p2 (onew @ [Print ''Loop ERROR:''])" by auto
        from step it Done u o r4(1)
        have res: "r = BreakError" "tr' = tr4 @ [Print ''Loop ERROR:'']"
          by (auto simp: loop_error_def)
        have "tr' = tr @ Call TicksMs # Call (Scpi ?q) # (dnew @ unew @ onew @ [Print ''Loop ERROR:''])"
          using res(2) onew(1) unew(1) dnew(1) by simp
        moreover have "errors_routed BreakError ?p (dnew @ unew @ onew @ [Print ''Loop ERROR:''])"
          using pre [of BreakError "onew @ [Print ''Loop ERROR:'']"] r4(2) by simp
        ultimately show ?thesis using res by simp
      qed
    qed
  qed
qed

lemma loop_iteration_last:
  assumes "loop_iteration dev s tr = (r, s', tr')"
  shows "r = BreakError \<longleftrightarrow> last tr' = Print ''Loop ERROR:''"
proof -
  have u: "tr3 \<noteq> [] \<and> last tr3 \<noteq> Print ''Loop ERROR:''"
    if "updateDisplay dev s2 tr2 = (vals, tr3)" for s2 tr2 vals tr3
    using that
    by (auto simp: updateDisplay_def display_failed_def scpi_def getU_def getI_def
        split: reply.splits)
  have o: "tr4 \<noteq> [] \<and> last tr4 \<noteq> Print ''Loop ERROR:''"
    if "drive_output dev s2 v tr3 = (Done, s4, tr4)" "tr3 \<noteq> []" "last tr3 \<noteq> Print ''Loop ERROR:''"
    for s2 v tr3 s4 tr4
    using that
    by (auto simp: drive_output_def scpi_def setU_def Let_def split: reply.splits if_splits)
  have l: "last tr5 \<noteq> Print ''Loop ERROR:''"
    if "status_line s4 tr4 = (s5, tr5)" "tr4 \<noteq> []" "last tr4 \<noteq> Print ''Loop ERROR:''"
    for s4 tr4 s5 tr5
    using that by (auto simp: status_line_def split: if_splits)
  have c: "last tr2 \<noteq> Print ''Loop ERROR:''"
    if "dispatch dev action s tr1 = (Closing, s2, tr2)" for action tr1 s2 tr2
  proof -
    have n: "st \<noteq> Closing" if "startControl dev s tr1 = (st, s2, tr2)" for st
      using startControl_events [OF that] by auto
    have n2: "st \<noteq> Closing" if "stopControl dev s tr1 = (st, s2, tr2)" for st
      using stopControl_events [OF that] by auto
    have n3: "st \<noteq> Closing" if "configCurrentLimit dev s tr1 = (st, s2, tr2)" for st
      using configCurrentLimit_events [OF that] by auto
    show ?thesis
      using \<open>dispatch dev action s tr1 = (Closing, s2, tr2)\<close> n n2 n3
      by (auto simp: dispatch_def split: if_splits prod.splits)
  qed
  show ?thesis
    using assms
    by (auto simp: loop_iteration_def loop_error_def Let_def
        split: prod.splits reply.splits status.splits dest: u o l c)
qed




subsection \<open>Leaving the loop\<close>

lemma cleanup_events:
  "\<exists>new. cleanup dev tr = tr @ new \<and>
     take 1 (attempted new) = [Scpi (InstNsel 2)] \<and>
     prefix (attempted new) (map Scpi cleanup_commands) \<and>
     (Failed (Scpi (InstNsel 2)) \<in> set new \<longleftrightarrow>
        scpi_reply dev (tr @ [Print ''Cleaning up...'']) (InstNsel 2) = Raise) \<and>
     (Failed (Scpi (InstNsel 2)) \<notin> set new \<longrightarrow>
        take 2 (attempted new) = [Scpi (InstNsel 2), Scpi (Outp False)]) \<and>
     (Failed (Scpi (InstNsel 2)) \<in> set new \<longrightarrow> attempted new = [Scpi (InstNsel 2)])"
  by (auto simp: cleanup_def cleanup_commands_def scpi_def split: reply.splits)




section \<open>Properties of the DMM6500 screenshot tool\<close>

text \<open>
  Claim C10. In the full page mode, when the driver exists, the page has loaded, the
  canvas has appeared and neither the \<open>bumper\<close> element nor the \<open>contentWrapper\<close> element
  is found, the function asks the driver for a screenshot of the page and quits the
  driver, and no file is written. When the screenshot and the quit return, the function
  returns True and the process exits with status 0.
\<close>

theorem fullpage_without_front_panel_returns_true:
  assumes "create_driver env headless browser = Returns True"
    and "driver_get env (''http://'' @ username @ '':'' @ password @ ''@'' @ ip @ ''/front_panel.html'')
           = Returns ()"
    and "wait_canvas env = Returns ()"
    and "0 \<le> wait_time"
    and "find_element env ''bumper'' = Raises e1"
    and "find_element env ''contentWrapper'' = Raises e2"
    and "shot = dmm_take_screenshot env filename_arg ip username password headless browser wait_time True"
  shows "saved shot = None \<and>
         driver_calls shot = [''get'', ''wait DisplayCanvas'', ''find_element bumper'',
                              ''find_element contentWrapper'', ''get_screenshot_as_png'', ''quit''] \<and>
         (get_screenshot_as_png env = Returns image_data \<and> driver_quit env = Returns ()
            \<longrightarrow> result shot = Returns True \<and> exit_status shot = 0)"
  using assms
  by (auto simp: dmm_take_screenshot_def try_body_def capture_fullpage_def raised_def returns_def
      exit_status_def Let_def split: outcome.splits)

theorem fullpage_without_front_panel_returns_true_witness:
  "create_driver panel_missing True ''chrome'' = Returns True \<and>
   find_element panel_missing ''bumper'' = Raises WebDriverException \<and>
   find_element panel_missing ''contentWrapper'' = Raises WebDriverException \<and>
   result (dmm_take_screenshot panel_missing (Some ''out.png'') ''192.168.0.1'' ''admin'' ''admin''
             True ''chrome'' 3 True) = Returns True \<and>
   saved (dmm_take_screenshot panel_missing (Some ''out.png'') ''192.168.0.1'' ''admin'' ''admin''
             True ''chrome'' 3 True) = None \<and>
   exit_status (dmm_take_screenshot panel_missing (Some ''out.png'') ''192.168.0.1'' ''admin'' ''admin''
             True ''chrome'' 3 True) = 0"
proof -
  have c: "create_driver panel_missing True ''chrome'' = Returns True"
    by (simp add: create_driver_def panel_missing_def lower_char_def is_webdriver_exception_def)
  have f: "find_element panel_missing ''bumper'' = Raises WebDriverException"
    "find_element panel_missing ''contentWrapper'' = Raises WebDriverException"
    "driver_get panel_missing (''http://'' @ ''admin'' @ '':'' @ ''admin'' @ ''@'' @ ''192.168.0.1'' @ ''/front_panel.html'') = Returns ()"
    "wait_canvas panel_missing = Returns ()"
    "get_screenshot_as_png panel_missing = Returns ''PNG''" "driver_quit panel_missing = Returns ()"
    by (simp_all add: panel_missing_def)
  show ?thesis
    using fullpage_without_front_panel_returns_true [OF c f(3) f(4) _ f(1) f(2) refl,
        of 3 "Some ''out.png''" "''PNG''"] c f
    by simp
qed

end
